theory Spec2Isabelle
  imports Complex_Main
begin

section \<open>Documents and the store\<close>

text \<open>
  The catalogue keeps three collections of documents: categories, products and reviews.
  An \<open>ObjectId\<close> is modelled as a natural number: every id is a well-formed, truthy
  value, and two ids are equal exactly when their \<open>toString()\<close> renderings are.
  A request names an id by a string. Where a handler only hands that string to the store,
  the model takes the id it casts to; \<open>updateCategory\<close> also compares the strings
  themselves, so there the request's strings are kept (\<open>castObjectId\<close>).
  A collection is the list of its documents in the order the store returns them; the
  store keeps the \<open>_id\<close> of a collection unique, which the theorems that need it
  assume as \<open>distinct (map c_id \<dots>)\<close> or \<open>distinct (map p_id \<dots>)\<close>.
  A JavaScript \<open>Number\<close> is modelled as a real number, a count as a natural number.
\<close>

type_synonym oid = nat

text \<open>An image descriptor \<open>{url, public_id}\<close>, as \<open>uploadCategoryImage\<close> stores it.\<close>

record imageDescriptor =
  url :: string
  public_id :: "string option"

text \<open>
  Modelled from the spec: the Category schema (models/Category.js) is not among the source
  files. The fields are those of the data model (identifier, name, slug, description,
  optional image, optional parent reference, active flag), which are also the fields the
  controller reads. \<open>c_parentCategory = None\<close> is a null or missing parent reference.
\<close>

record category =
  c_id :: oid
  c_name :: string
  c_slug :: string
  c_description :: "string option"
  c_image :: "imageDescriptor option"
  c_parentCategory :: "oid option"
  c_isActive :: bool

text \<open>
  The Product schema (the fields the controllers and the aggregator use) and the Review
  schema.
\<close>

record product =
  p_id :: oid
  p_name :: string
  p_price :: real
  p_category :: oid
  p_stock :: real
  p_rating :: real
  p_numReviews :: nat
  p_isActive :: bool

record review =
  r_id :: oid
  r_product :: oid
  r_user :: oid
  r_rating :: real
  r_comment :: string

record db =
  categories :: "category list"
  products :: "product list"
  reviews :: "review list"

text \<open>
  What a handler answers: \<open>res.status(n).json({success: true, data})\<close>,
  \<open>res.status(n).json({success: false, error})\<close>, or an exception handed to
  \<open>next(error)\<close>.
\<close>

datatype 'a response = Success nat 'a | Failure nat string | Thrown string

text \<open>
  The store's single-document writes: \<open>findByIdAndUpdate\<close>, \<open>save\<close> and
  \<open>deleteOne\<close> touch the first document that matches, and nothing when none does.
\<close>

fun updateFirst :: "('a \<Rightarrow> bool) \<Rightarrow> ('a \<Rightarrow> 'a) \<Rightarrow> 'a list \<Rightarrow> 'a list" where
  "updateFirst P f [] = []"
| "updateFirst P f (x # xs) = (if P x then f x # xs else x # updateFirst P f xs)"

fun removeFirst :: "('a \<Rightarrow> bool) \<Rightarrow> 'a list \<Rightarrow> 'a list" where
  "removeFirst P [] = []"
| "removeFirst P (x # xs) = (if P x then xs else x # removeFirst P xs)"

definition findCategory :: "db \<Rightarrow> oid \<Rightarrow> category option" where
  "findCategory s i = find (\<lambda>c. c_id c = i) (categories s)"

definition findProduct :: "db \<Rightarrow> oid \<Rightarrow> product option" where
  "findProduct s i = find (\<lambda>p. p_id p = i) (products s)"

text \<open>A count inside a template literal: the decimal digits of a natural number.\<close>

fun showNat :: "nat \<Rightarrow> string" where
  "showNat n = (if n < 10 then [''0123456789'' ! n]
                else showNat (n div 10) @ [''0123456789'' ! (n mod 10)])"

section \<open>The category controller\<close>

subsection \<open>The category tree\<close>

text \<open>
  A node of the tree built by \<open>getCategoryTree\<close>: the object literal
  \<open>{_id, name, slug, description, image, children}\<close> of the \<open>map\<close> callback.
\<close>

datatype node =
  Node (n_id: oid) (n_name: string) (n_slug: string) (n_description: "string option")
       (n_image: "imageDescriptor option") (children: "node list")

definition treeNode :: "category \<Rightarrow> node list \<Rightarrow> node" where
  "treeNode category ch =
     Node (c_id category) (c_name category) (c_slug category) (c_description category)
          (c_image category) ch"

text \<open>
  The \<open>filter\<close> callback of \<open>buildTree\<close>: with \<open>parentId === null\<close> it keeps the
  categories without a parent, otherwise those that have a parent whose id is
  \<open>parentId\<close>.
\<close>

fun isChildOf :: "oid option \<Rightarrow> category \<Rightarrow> bool" where
  "isChildOf None category = (c_parentCategory category = None)"
| "isChildOf (Some parentId) category =
     (case c_parentCategory category of None \<Rightarrow> False | Some p \<Rightarrow> p = parentId)"

text \<open>
  \<open>buildTree\<close> calls itself once for every category it keeps, and nothing in the code
  bounds the depth of these calls. The model counts the depth with fuel: \<open>None\<close> means
  that the calls went deeper than the fuel allows, \<open>Some tree\<close> that the function
  returned \<open>tree\<close>. \<open>those\<close> makes the whole \<open>map\<close> fail when one callback does.
\<close>

fun buildTree :: "nat \<Rightarrow> category list \<Rightarrow> oid option \<Rightarrow> node list option" where
  "buildTree 0 cats parentId = None"
| "buildTree (Suc fuel) cats parentId =
     those (map (\<lambda>category.
              map_option (treeNode category) (buildTree fuel cats (Some (c_id category))))
            (filter (isChildOf parentId) cats))"

text \<open>
  The handler loads the active categories, builds the tree from the roots and answers
  with it.
\<close>

definition getCategoryTree :: "nat \<Rightarrow> db \<Rightarrow> node list response option" where
  "getCategoryTree fuel s =
     map_option (Success 200) (buildTree fuel (filter c_isActive (categories s)) None)"

text \<open>
  Notions the statements about the tree use. \<open>subnodes t\<close> lists \<open>t\<close> and every node
  below it, \<open>allNodes\<close> does so for a list of trees. \<open>label\<close> and \<open>projected\<close> are
  the five fields a node carries and the same five fields of a category.
\<close>

fun subnodes :: "node \<Rightarrow> node list" where
  "subnodes (Node i n s d im ch) = Node i n s d im ch # concat (map subnodes ch)"

definition allNodes :: "node list \<Rightarrow> node list" where
  "allNodes ts = concat (map subnodes ts)"

definition label :: "node \<Rightarrow> oid \<times> string \<times> string \<times> string option \<times> imageDescriptor option" where
  "label t = (n_id t, n_name t, n_slug t, n_description t, n_image t)"

definition projected ::
  "category \<Rightarrow> oid \<times> string \<times> string \<times> string option \<times> imageDescriptor option" where
  "projected c = (c_id c, c_name c, c_slug c, c_description c, c_image c)"

text \<open>
  \<open>parentChain cats [x, y, \<dots>, r]\<close>: \<open>x\<close> is the id of a category whose parent is
  \<open>y\<close>, and so on up to \<open>r\<close>, the id of a category without a parent. A category is
  reachable from a root when following the parent references from it arrives at a
  category without a parent; \<open>climb\<close> follows at most as many references as it has fuel,
  and no path without a repetition is longer than the collection.
\<close>

fun parentChain :: "category list \<Rightarrow> oid list \<Rightarrow> bool" where
  "parentChain cats [] = True"
| "parentChain cats [x] = (\<exists>c\<in>set cats. c_id c = x \<and> c_parentCategory c = None)"
| "parentChain cats (x # y # ys) =
     ((\<exists>c\<in>set cats. c_id c = x \<and> c_parentCategory c = Some y) \<and> parentChain cats (y # ys))"

fun topOf :: "oid list \<Rightarrow> oid option" where
  "topOf [] = None"
| "topOf (p # ps) = Some p"

fun climb :: "nat \<Rightarrow> category list \<Rightarrow> oid \<Rightarrow> bool" where
  "climb 0 cats x = False"
| "climb (Suc n) cats x =
     (case find (\<lambda>c. c_id c = x) cats of
        None \<Rightarrow> False
      | Some c \<Rightarrow> (case c_parentCategory c of None \<Rightarrow> True | Some p \<Rightarrow> climb n cats p))"

definition reachable :: "category list \<Rightarrow> oid \<Rightarrow> bool" where
  "reachable cats x = climb (length cats) cats x"

subsection \<open>Updating and deleting a category\<close>

text \<open>
  The store casts a string to an \<open>ObjectId\<close> when the string is the 24-digit
  hexadecimal rendering of the id, with the digits a to f in either case; so one id has
  several spellings. The model takes every other string as one that does not cast: the
  store call then throws a \<open>CastError\<close>, which reaches \<open>next(error)\<close>.
\<close>

definition isHexDigit :: "char \<Rightarrow> bool" where
  "isHexDigit c = (let n = (of_char c :: nat) in
      (48 \<le> n \<and> n \<le> 57) \<or> (65 \<le> n \<and> n \<le> 70) \<or> (97 \<le> n \<and> n \<le> 102))"

definition hexValue :: "char \<Rightarrow> nat" where
  "hexValue c = (let n = (of_char c :: nat) in
      if n \<le> 57 then n - 48 else if n \<le> 70 then n - 55 else n - 87)"

definition castObjectId :: "string \<Rightarrow> oid option" where
  "castObjectId str =
     (if length str = 24 \<and> list_all isHexDigit str
      then Some (foldl (\<lambda>a c. 16 * a + hexValue c) 0 str) else None)"

text \<open>
  A field of a request body: missing, \<open>null\<close>, or a value. The value of
  \<open>parentCategory\<close> is the string the request carries; \<open>Absent\<close>, \<open>Null\<close> and the
  empty string are the falsy cases of \<open>if (req.body.parentCategory)\<close>.
\<close>

datatype 'a jsonField = Absent | Null | Value 'a

record categoryBody =
  b_name :: "string option"
  b_description :: "string option"
  b_parentCategory :: "string jsonField"
  b_isActive :: "bool option"

text \<open>
  \<open>Category.findByIdAndUpdate(req.params.id, req.body, {new: true, runValidators: true})\<close>:
  the store casts the id and the \<open>parentCategory\<close> of the body, writes the fields the
  body carries onto the first document with that id, and returns the document as written
  (\<open>null\<close> when there is none).
\<close>

definition applyBody :: "categoryBody \<Rightarrow> category \<Rightarrow> category" where
  "applyBody body c =
     c\<lparr>c_name := (case b_name body of None \<Rightarrow> c_name c | Some n \<Rightarrow> n),
       c_description := (case b_description body of None \<Rightarrow> c_description c | Some d \<Rightarrow> Some d),
       c_parentCategory := (case b_parentCategory body of
                              Absent \<Rightarrow> c_parentCategory c | Null \<Rightarrow> None
                            | Value p \<Rightarrow> castObjectId p),
       c_isActive := (case b_isActive body of None \<Rightarrow> c_isActive c | Some a \<Rightarrow> a)\<rparr>"

definition bodyCasts :: "categoryBody \<Rightarrow> bool" where
  "bodyCasts body =
     (case b_parentCategory body of Value p \<Rightarrow> castObjectId p \<noteq> None | _ \<Rightarrow> True)"

definition categoryFindByIdAndUpdate ::
  "db \<Rightarrow> string \<Rightarrow> categoryBody \<Rightarrow> db \<times> category option response" where
  "categoryFindByIdAndUpdate s paramsId body =
     (case castObjectId paramsId of
        None \<Rightarrow> (s, Thrown ''CastError'')
      | Some i \<Rightarrow>
          if \<not> bodyCasts body then (s, Thrown ''CastError'')
          else (s\<lparr>categories := updateFirst (\<lambda>c. c_id c = i) (applyBody body) (categories s)\<rparr>,
                Success 200 (map_option (applyBody body) (findCategory s i))))"

text \<open>
  \<open>updateCategory\<close>: the category must exist; a truthy \<open>parentCategory\<close> must differ,
  as a string (\<open>===\<close>), from the id string of the request and must name an existing
  category; only then is the document written. Every refusal returns before the write.
\<close>

definition updateCategory :: "db \<Rightarrow> string \<Rightarrow> categoryBody \<Rightarrow> db \<times> category option response" where
  "updateCategory s paramsId body =
     (case castObjectId paramsId of
        None \<Rightarrow> (s, Thrown ''CastError'')
      | Some i \<Rightarrow>
          (case findCategory s i of
             None \<Rightarrow> (s, Failure 404 ''Category not found'')
           | Some category \<Rightarrow>
               (case b_parentCategory body of
                  Value parentCategory \<Rightarrow>
                    if parentCategory = [] then categoryFindByIdAndUpdate s paramsId body
                    else if parentCategory = paramsId
                    then (s, Failure 400 ''Category cannot be its own parent'')
                    else (case castObjectId parentCategory of
                            None \<Rightarrow> (s, Thrown ''CastError'')
                          | Some p \<Rightarrow>
                              (case findCategory s p of
                                 None \<Rightarrow> (s, Failure 404 ''Parent category not found'')
                               | Some parent \<Rightarrow> categoryFindByIdAndUpdate s paramsId body))
                | _ \<Rightarrow> categoryFindByIdAndUpdate s paramsId body)))"

text \<open>
  \<open>deleteCategory\<close>: the category must exist; the products that reference it are
  counted first, then the categories that name it as their parent; the document is
  deleted when both counts are zero.
\<close>

definition deleteCategory :: "db \<Rightarrow> oid \<Rightarrow> db \<times> unit response" where
  "deleteCategory s paramsId =
     (case findCategory s paramsId of
        None \<Rightarrow> (s, Failure 404 ''Category not found'')
      | Some category \<Rightarrow>
          (let productCount = length (filter (\<lambda>p. p_category p = c_id category) (products s)) in
           if productCount > 0
           then (s, Failure 400 (''Cannot delete category with '' @ showNat productCount @
                                 '' products. Move products first.''))
           else
             (let subcategoryCount =
                    length (filter (\<lambda>c. c_parentCategory c = Some (c_id category)) (categories s)) in
              if subcategoryCount > 0
              then (s, Failure 400 (''Cannot delete category with '' @ showNat subcategoryCount @
                                    '' subcategories. Delete subcategories first.''))
              else (s\<lparr>categories := removeFirst (\<lambda>c. c_id c = c_id category) (categories s)\<rparr>,
                    Success 200 ()))))"

section \<open>The product controller: stock\<close>

text \<open>
  \<open>product.save()\<close> runs the schema's validators on \<open>stock\<close>, a required path
  with \<open>min: 0\<close>; a failure is thrown and reaches \<open>next(error)\<close> with nothing written.
\<close>

definition saveProduct :: "db \<Rightarrow> product \<Rightarrow> db \<times> product response" where
  "saveProduct s product =
     (if p_stock product < 0 then (s, Thrown ''ValidationError: Stock cannot be negative'')
      else (s\<lparr>products := updateFirst (\<lambda>p. p_id p = p_id product) (\<lambda>p. product) (products s)\<rparr>,
            Success 200 product))"

text \<open>
  \<open>updateStock\<close>: the operation name is checked before the product is looked up; the
  \<open>switch\<close> then computes the new stock and the document is saved.
\<close>

definition updateStock :: "db \<Rightarrow> oid \<Rightarrow> real \<Rightarrow> string \<Rightarrow> db \<times> product response" where
  "updateStock s paramsId quantity operation =
     (if operation \<notin> set [''add'', ''subtract'', ''set'']
      then (s, Failure 400 ''Operation must be add, subtract, or set'')
      else
        (case findProduct s paramsId of
           None \<Rightarrow> (s, Failure 404 ''Product not found'')
         | Some product \<Rightarrow>
             saveProduct s
               (if operation = ''add'' then product\<lparr>p_stock := p_stock product + quantity\<rparr>
                else if operation = ''subtract''
                  then product\<lparr>p_stock := max 0 (p_stock product - quantity)\<rparr>
                else product\<lparr>p_stock := quantity\<rparr>)))"

section \<open>The rating aggregator\<close>

text \<open>
  The aggregation pipeline \<open>$match {product: productId}\<close>, \<open>$group {_id: '$product',
  averageRating: {$avg: '$rating'}, numberOfReviews: {$sum: 1}}\<close>: every matched review
  has the same product, so there is one group when a review matches and none otherwise.
  \<open>$avg\<close> is the exact mean.
\<close>

record stats =
  s_id :: oid
  averageRating :: real
  numberOfReviews :: nat

definition aggregate :: "review list \<Rightarrow> oid \<Rightarrow> stats list" where
  "aggregate rs productId =
     (let matched = filter (\<lambda>r. r_product r = productId) rs in
      if matched = [] then []
      else [\<lparr>s_id = productId,
             averageRating = sum_list (map r_rating matched) / real (length matched),
             numberOfReviews = length matched\<rparr>])"

definition productFindByIdAndUpdate :: "db \<Rightarrow> oid \<Rightarrow> real \<Rightarrow> nat \<Rightarrow> db" where
  "productFindByIdAndUpdate s i rating numReviews =
     s\<lparr>products := updateFirst (\<lambda>p. p_id p = i)
                       (\<lambda>p. p\<lparr>p_rating := rating, p_numReviews := numReviews\<rparr>) (products s)\<rparr>"

definition calculateAverageRating :: "db \<Rightarrow> oid \<Rightarrow> db" where
  "calculateAverageRating s productId =
     (case aggregate (reviews s) productId of
        st # _ \<Rightarrow> productFindByIdAndUpdate s productId (averageRating st) (numberOfReviews st)
      | [] \<Rightarrow> productFindByIdAndUpdate s productId 0 0)"

text \<open>The hooks \<open>post('save')\<close> and \<open>post('remove')\<close> of the review schema.\<close>

definition postSave :: "db \<Rightarrow> review \<Rightarrow> db" where
  "postSave s this = calculateAverageRating s (r_product this)"

definition postRemove :: "db \<Rightarrow> review \<Rightarrow> db" where
  "postRemove s this = calculateAverageRating s (r_product this)"

text \<open>
  Modelled from the spec: the review controller (controllers/reviewController.js) is not
  among the source files. A review is created, its rating is updated, or it is deleted,
  and the aggregator runs after each confirmed write: creating saves a new document (the
  store refuses a second \<open>_id\<close> and, by the unique index of the schema, a second review
  of one user for one product), updating saves the stored document with a new rating,
  deleting removes it; the write is followed by the hook of the schema. A refused
  operation writes nothing.
\<close>

datatype reviewOp = Create review | Update oid real | Delete oid

definition createReview :: "db \<Rightarrow> review \<Rightarrow> string + db" where
  "createReview s r =
     (if r_id r \<in> r_id ` set (reviews s) then Inl ''E11000 duplicate key: _id''
      else if \<exists>q\<in>set (reviews s). r_product q = r_product r \<and> r_user q = r_user r
        then Inl ''E11000 duplicate key: product_1_user_1''
      else Inr (postSave (s\<lparr>reviews := reviews s @ [r]\<rparr>) r))"

definition updateReview :: "db \<Rightarrow> oid \<Rightarrow> real \<Rightarrow> string + db" where
  "updateReview s i rating =
     (case find (\<lambda>r. r_id r = i) (reviews s) of
        None \<Rightarrow> Inl ''Review not found''
      | Some r \<Rightarrow>
          Inr (postSave (s\<lparr>reviews := updateFirst (\<lambda>q. r_id q = i) (\<lambda>q. r\<lparr>r_rating := rating\<rparr>)
                                         (reviews s)\<rparr>)
                        (r\<lparr>r_rating := rating\<rparr>)))"

definition deleteReview :: "db \<Rightarrow> oid \<Rightarrow> string + db" where
  "deleteReview s i =
     (case find (\<lambda>r. r_id r = i) (reviews s) of
        None \<Rightarrow> Inl ''Review not found''
      | Some r \<Rightarrow> Inr (postRemove (s\<lparr>reviews := removeFirst (\<lambda>q. r_id q = i) (reviews s)\<rparr>) r))"

fun applyOp :: "db \<Rightarrow> reviewOp \<Rightarrow> string + db" where
  "applyOp s (Create r) = createReview s r"
| "applyOp s (Update i rating) = updateReview s i rating"
| "applyOp s (Delete i) = deleteReview s i"

text \<open>
  A sequence of review operations, each settled before the next starts; a refused
  operation leaves the store as it was.
\<close>

fun settle :: "db \<Rightarrow> reviewOp list \<Rightarrow> db" where
  "settle s [] = s"
| "settle s (x # xs) = settle (case applyOp s x of Inl e \<Rightarrow> s | Inr s' \<Rightarrow> s') xs"

text \<open>
  The aggregate the data model asks for: the mean rating of the reviews of a product
  (0 when there is none) and their number.
\<close>

definition meanRating :: "review list \<Rightarrow> oid \<Rightarrow> real" where
  "meanRating rs i =
     (let matched = filter (\<lambda>r. r_product r = i) rs in
      if matched = [] then 0 else sum_list (map r_rating matched) / real (length matched))"

definition countReviews :: "review list \<Rightarrow> oid \<Rightarrow> nat" where
  "countReviews rs i = length (filter (\<lambda>r. r_product r = i) rs)"

definition aggregateConsistent :: "db \<Rightarrow> bool" where
  "aggregateConsistent s =
     (\<forall>p\<in>set (products s). p_rating p = meanRating (reviews s) (p_id p) \<and>
                             p_numReviews p = countReviews (reviews s) (p_id p))"

section \<open>The product controller: the query of the listing\<close>

text \<open>
  \<open>req.query\<close> as the query-string parser delivers it: a string, an array, or a nested
  object such as \<open>{lt: '1000'}\<close> for \<open>price[lt]=1000\<close>. An object is the list of its
  properties in order.
\<close>

datatype qval = QStr string | QArr "qval list" | QObj "(string \<times> qval) list"

type_synonym query = "(string \<times> qval) list"

fun joinWith :: "string \<Rightarrow> string list \<Rightarrow> string" where
  "joinWith sep [] = []"
| "joinWith sep [x] = x"
| "joinWith sep (x # y # ys) = x @ sep @ joinWith sep (y # ys)"

subsection \<open>The filter stage\<close>

text \<open>\<open>JSON.stringify\<close> on query values: strings are quoted and escaped.\<close>

definition hexDigit :: "nat \<Rightarrow> char" where
  "hexDigit n = ''0123456789abcdef'' ! (n mod 16)"

definition escapeChar :: "char \<Rightarrow> string" where
  "escapeChar c =
     (if c = CHR 0x22 then [CHR 0x5C, CHR 0x22]
      else if c = CHR 0x5C then [CHR 0x5C, CHR 0x5C]
      else if c = CHR 0x08 then [CHR 0x5C, CHR ''b'']
      else if c = CHR 0x0C then [CHR 0x5C, CHR ''f'']
      else if c = CHR 0x0A then [CHR 0x5C, CHR ''n'']
      else if c = CHR 0x0D then [CHR 0x5C, CHR ''r'']
      else if c = CHR 0x09 then [CHR 0x5C, CHR ''t'']
      else if (of_char c :: nat) < 32
        then [CHR 0x5C, CHR ''u'', CHR ''0'', CHR ''0'', hexDigit (of_char c div 16), hexDigit (of_char c)]
      else [c])"

definition quoteJSON :: "string \<Rightarrow> string" where
  "quoteJSON s = [CHR 0x22] @ concat (map escapeChar s) @ [CHR 0x22]"

fun stringify :: "qval \<Rightarrow> string" where
  "stringify (QStr s) = quoteJSON s"
| "stringify (QArr xs) = ''['' @ joinWith '','' (map stringify xs) @ '']''"
| "stringify (QObj kvs) =
     ''{'' @ joinWith '','' (map (\<lambda>(k, v). quoteJSON k @ '':'' @ stringify v) kvs) @ ''}''"

text \<open>
  \<open>queryStr.replace(/\b(gt|gte|lt|lte|in)\b/g, match => `$${match}`)\<close>. A match starts
  and ends at a word boundary, so it is a maximal run of word characters
  (\<open>[A-Za-z0-9_]\<close>) that is one of the five words; every such run, wherever it stands
  in the text, gets a \<open>$\<close> in front. \<open>replaceWords\<close> scans the text with the run read
  so far in its first argument.
\<close>

definition isWordChar :: "char \<Rightarrow> bool" where
  "isWordChar c = (let n = (of_char c :: nat) in
      (48 \<le> n \<and> n \<le> 57) \<or> (65 \<le> n \<and> n \<le> 90) \<or> (97 \<le> n \<and> n \<le> 122) \<or> n = 95)"

definition operatorWords :: "string list" where
  "operatorWords = [''gt'', ''gte'', ''lt'', ''lte'', ''in'']"

definition flushWord :: "string \<Rightarrow> string" where
  "flushWord w = (if w \<in> set operatorWords then ''$'' @ w else w)"

fun replaceWords :: "string \<Rightarrow> string \<Rightarrow> string" where
  "replaceWords w [] = flushWord w"
| "replaceWords w (c # cs) =
     (if isWordChar c then replaceWords (w @ [c]) cs
      else flushWord w @ c # replaceWords [] cs)"

text \<open>
  The copy of \<open>req.query\<close> without the reserved parameters, and the text that
  \<open>getProducts\<close> hands to \<open>JSON.parse\<close> and then to \<open>Product.find\<close>.
\<close>

definition removeFields :: "string list" where
  "removeFields = [''select'', ''sort'', ''page'', ''limit'', ''search'']"

definition reqQuery :: "query \<Rightarrow> query" where
  "reqQuery q = filter (\<lambda>(param, v). param \<notin> set removeFields) q"

definition queryStr :: "query \<Rightarrow> string" where
  "queryStr q = replaceWords [] (stringify (QObj (reqQuery q)))"

subsection \<open>Pagination\<close>

text \<open>
  \<open>parseInt(v, 10)\<close> first turns \<open>v\<close> into a string (\<open>undefined\<close> for a missing
  parameter), skips leading white space, reads a sign and then the longest run of decimal
  digits; without a digit the result is \<open>NaN\<close>, here \<open>None\<close>. White space is the ASCII
  white space.
\<close>

fun jsToString :: "qval \<Rightarrow> string" where
  "jsToString (QStr s) = s"
| "jsToString (QArr xs) = joinWith '','' (map jsToString xs)"
| "jsToString (QObj kvs) = ''[object Object]''"

definition param :: "query \<Rightarrow> string \<Rightarrow> string" where
  "param q k = (case map_of q k of None \<Rightarrow> ''undefined'' | Some v \<Rightarrow> jsToString v)"

definition isWhiteSpace :: "char \<Rightarrow> bool" where
  "isWhiteSpace c = ((of_char c :: nat) \<in> {9, 10, 11, 12, 13, 32})"

definition isDigit :: "char \<Rightarrow> bool" where
  "isDigit c = (48 \<le> (of_char c :: nat) \<and> (of_char c :: nat) \<le> 57)"

definition digitValue :: "char \<Rightarrow> int" where
  "digitValue c = int (of_char c) - 48"

definition parseInt10 :: "string \<Rightarrow> int option" where
  "parseInt10 s =
     (let t = dropWhile isWhiteSpace s;
          sign = (case t of c # r \<Rightarrow> if c = CHR ''-'' then - 1 else 1 | [] \<Rightarrow> 1);
          u = (case t of c # r \<Rightarrow> if c = CHR ''-'' \<or> c = CHR ''+'' then r else t | [] \<Rightarrow> t);
          ds = takeWhile isDigit u
      in if ds = [] then None
         else Some (sign * foldl (\<lambda>a c. 10 * a + digitValue c) 0 ds))"

text \<open>\<open>x || d\<close> on the result of \<open>parseInt\<close>: \<open>NaN\<close> and 0 are falsy.\<close>

definition orDefault :: "int option \<Rightarrow> int \<Rightarrow> int" where
  "orDefault v d = (case v of None \<Rightarrow> d | Some n \<Rightarrow> if n = 0 then d else n)"

definition pageOf :: "query \<Rightarrow> int" where
  "pageOf q = orDefault (parseInt10 (param q ''page'')) 1"

definition limitOf :: "query \<Rightarrow> int" where
  "limitOf q = orDefault (parseInt10 (param q ''limit'')) 10"




section \<open>Example data\<close>

definition mkCategory :: "oid \<Rightarrow> string \<Rightarrow> oid option \<Rightarrow> category" where
  "mkCategory i n p = \<lparr>c_id = i, c_name = n, c_slug = n, c_description = None, c_image = None,
                c_parentCategory = p, c_isActive = True\<rparr>"

definition mkNode :: "oid \<Rightarrow> string \<Rightarrow> node list \<Rightarrow> node" where
  "mkNode i n ch = Node i n n None None ch"

text \<open>The categories A (a root), B below A, C below B, and D (a root).\<close>

definition exampleForest :: "category list" where
  "exampleForest = [mkCategory 1 ''A'' None, mkCategory 2 ''B'' (Some 1),
                    mkCategory 3 ''C'' (Some 2), mkCategory 4 ''D'' None]"

text \<open>
  A root R with a child K, a category S that is its own parent, and A and B that are
  each other's parent.
\<close>

definition exampleCyclic :: "category list" where
  "exampleCyclic = [mkCategory 1 ''R'' None, mkCategory 2 ''K'' (Some 1), mkCategory 3 ''S'' (Some 3),
                    mkCategory 4 ''A'' (Some 5), mkCategory 5 ''B'' (Some 4)]"

text \<open>Two documents with one id: a collection the store never holds.\<close>

definition exampleDuplicate :: "category list" where
  "exampleDuplicate = [mkCategory 1 ''A'' None, mkCategory 1 ''B'' (Some 1)]"

definition mkProduct :: "oid \<Rightarrow> oid \<Rightarrow> real \<Rightarrow> real \<Rightarrow> nat \<Rightarrow> product" where
  "mkProduct i c stock rating n =
     \<lparr>p_id = i, p_name = ''item'', p_price = 10, p_category = c, p_stock = stock,
      p_rating = rating, p_numReviews = n, p_isActive = True\<rparr>"

definition mkReview :: "oid \<Rightarrow> oid \<Rightarrow> oid \<Rightarrow> real \<Rightarrow> review" where
  "mkReview i p u rating =
     \<lparr>r_id = i, r_product = p, r_user = u, r_rating = rating, r_comment = ''a fine product''\<rparr>"

definition exampleStore :: db where
  "exampleStore =
     \<lparr>categories = exampleForest,
      products = [mkProduct 1 3 5 0 0, mkProduct 2 3 0 0 0],
      reviews = []\<rparr>"

text \<open>
  Users 7 and 8 review products 1 and 2; the third operation is a second review of
  product 1 by user 7, which the unique index refuses.
\<close>

definition exampleOps :: "reviewOp list" where
  "exampleOps = [Create (mkReview 1 1 7 4), Create (mkReview 2 1 8 5), Create (mkReview 3 1 7 1),
                 Create (mkReview 4 2 7 2), Update 4 3, Create (mkReview 5 2 8 4), Delete 4]"

text \<open>A store whose product 1 still carries an aggregate although no review is left for it.\<close>

definition staleStore :: db where
  "staleStore =
     \<lparr>categories = exampleForest,
      products = [mkProduct 1 3 5 (7 / 2) 2, mkProduct 2 3 0 4 1],
      reviews = [mkReview 4 2 7 4]\<rparr>"

text \<open>
  A store with the single category J, whose id 10 is rendered
  \<open>00000000000000000000000a\<close>, and the update payload that names the same id in
  upper case as the new parent.
\<close>

definition spellingStore :: db where
  "spellingStore = \<lparr>categories = [mkCategory 10 ''J'' None], products = [], reviews = []\<rparr>"

definition spellingBody :: categoryBody where
  "spellingBody = \<lparr>b_name = None, b_description = None,
                    b_parentCategory = Value ''00000000000000000000000A'', b_isActive = None\<rparr>"

text \<open>The query \<open>price[lt]=1000&sort=-price&page=2&limit=10\<close>.\<close>

definition exampleQuery :: query where
  "exampleQuery = [(''price'', QObj [(''lt'', QStr ''1000'')]), (''sort'', QStr ''-price''),
                   (''page'', QStr ''2''), (''limit'', QStr ''10'')]"


section \<open>Properties of the category tree\<close>

subsection \<open>Auxiliary facts\<close>

lemma those_map_iff:
  "those (map f xs) = Some ys \<longleftrightarrow> list_all2 (\<lambda>x y. f x = Some y) xs ys"
  by (induction xs arbitrary: ys) (auto simp: list_all2_Cons1 split: option.splits)

lemma those_map_ex:
  "(\<forall>x\<in>set xs. \<exists>y. f x = Some y) \<Longrightarrow> \<exists>ys. those (map f xs) = Some ys"
  by (induction xs) auto

lemma buildTree_Suc_iff:
  "buildTree (Suc n) cats pid = Some ts \<longleftrightarrow>
     list_all2 (\<lambda>c t. \<exists>ch. buildTree n cats (Some (c_id c)) = Some ch \<and> t = treeNode c ch)
       (filter (isChildOf pid) cats) ts"
  by (auto simp: those_map_iff elim!: list_all2_mono)

lemma buildTree_mono_Suc:
  "buildTree n cats pid = Some ts \<Longrightarrow> buildTree (Suc n) cats pid = Some ts"
proof (induction n arbitrary: pid ts)
  case 0
  then show ?case by simp
next
  case (Suc n)
  from Suc.prems have "list_all2 (\<lambda>c t. \<exists>ch. buildTree n cats (Some (c_id c)) = Some ch \<and> t = treeNode c ch)
       (filter (isChildOf pid) cats) ts" by (simp only: buildTree_Suc_iff)
  then have "list_all2 (\<lambda>c t. \<exists>ch. buildTree (Suc n) cats (Some (c_id c)) = Some ch \<and> t = treeNode c ch)
       (filter (isChildOf pid) cats) ts"
    by (rule list_all2_mono) (use Suc.IH in blast)
  then show ?case by (simp only: buildTree_Suc_iff)
qed

lemma buildTree_mono:
  "buildTree n cats pid = Some ts \<Longrightarrow> n \<le> m \<Longrightarrow> buildTree m cats pid = Some ts"
  by (induction m) (auto simp: le_Suc_eq buildTree_mono_Suc simp del: buildTree.simps)

lemma ids_inj: "distinct (map c_id cats) \<Longrightarrow> c \<in> set cats \<Longrightarrow> c' \<in> set cats \<Longrightarrow> c_id c = c_id c' \<Longrightarrow> c = c'"
  by (auto simp: distinct_map dest: inj_onD)

lemma chain_ids: "parentChain cats ps \<Longrightarrow> set ps \<subseteq> c_id ` set cats"
  by (induction cats ps rule: parentChain.induct) auto

lemma chain_tl: "parentChain cats (x # ps) \<Longrightarrow> parentChain cats ps"
  by (cases ps) auto

lemma chain_suffix: "parentChain cats (as @ bs) \<Longrightarrow> parentChain cats bs"
  by (induction as) (auto dest: chain_tl)

lemma chain_unique:
  "distinct (map c_id cats) \<Longrightarrow> parentChain cats (x # ps) \<Longrightarrow> parentChain cats (x # qs) \<Longrightarrow> ps = qs"
proof (induction ps arbitrary: x qs)
  case Nil
  from Nil.prems(2) obtain c where c: "c \<in> set cats" "c_id c = x" "c_parentCategory c = None"
    by auto
  show ?case
  proof (cases qs)
    case Nil
    then show ?thesis by simp
  next
    case (Cons z zs)
    with Nil.prems(3) obtain c' where c': "c' \<in> set cats" "c_id c' = x" "c_parentCategory c' = Some z"
      by auto
    from ids_inj[OF Nil.prems(1) c(1) c'(1)] c c' have "c = c'" by simp
    with c c' show ?thesis by simp
  qed
next
  case (Cons y ys)
  from Cons.prems(2) obtain c where c: "c \<in> set cats" "c_id c = x" "c_parentCategory c = Some y"
    and ch: "parentChain cats (y # ys)"
    by auto
  show ?case
  proof (cases qs)
    case Nil
    with Cons.prems(3) obtain c' where c': "c' \<in> set cats" "c_id c' = x" "c_parentCategory c' = None"
      by auto
    from ids_inj[OF Cons.prems(1) c(1) c'(1)] c c' have "c = c'" by simp
    with c c' show ?thesis by simp
  next
    case (Cons z zs)
    with Cons.prems(3) obtain c' where c': "c' \<in> set cats" "c_id c' = x" "c_parentCategory c' = Some z"
      and ch': "parentChain cats (z # zs)"
      by auto
    from ids_inj[OF Cons.prems(1) c(1) c'(1)] c c' have "c = c'" by simp
    with c c' have "y = z" by simp
    with ch ch' Cons.IH[OF Cons.prems(1)] have "ys = zs" by blast
    with \<open>y = z\<close> Cons show ?thesis by simp
  qed
qed

lemma chain_distinct:
  "distinct (map c_id cats) \<Longrightarrow> parentChain cats ps \<Longrightarrow> distinct ps"
proof (induction ps)
  case Nil
  then show ?case by simp
next
  case (Cons x ps)
  have "x \<notin> set ps"
  proof
    assume "x \<in> set ps"
    then obtain as bs where ps: "ps = as @ x # bs" by (auto dest: split_list)
    with Cons.prems have "parentChain cats ((x # as) @ x # bs)" by simp
    then have "parentChain cats (x # bs)" by (rule chain_suffix)
    with Cons.prems have "ps = bs" using chain_unique[of cats x ps bs] by simp
    with ps show False by simp
  qed
  with Cons show ?case by (auto dest: chain_tl)
qed

lemma chain_length:
  assumes "distinct (map c_id cats)" "parentChain cats ps"
  shows "length ps \<le> length cats"
proof -
  have "length ps = card (set ps)" using chain_distinct[OF assms] by (simp add: distinct_card)
  also have "\<dots> \<le> card (c_id ` set cats)" using chain_ids[OF assms(2)] by (simp add: card_mono)
  also have "\<dots> \<le> card (set cats)" by (simp add: card_image_le)
  also have "\<dots> \<le> length cats" by (rule card_length)
  finally show ?thesis .
qed

lemma child_chain:
  "parentChain cats ps \<Longrightarrow> c \<in> set cats \<Longrightarrow> isChildOf (topOf ps) c \<Longrightarrow> parentChain cats (c_id c # ps)"
  by (cases ps) (auto split: option.splits)

lemma buildTree_fuel:
  "distinct (map c_id cats) \<Longrightarrow> parentChain cats ps \<Longrightarrow> topOf ps = pid \<Longrightarrow>
   length cats < fuel + length ps \<Longrightarrow> \<exists>ts. buildTree fuel cats pid = Some ts"
proof (induction fuel arbitrary: ps pid)
  case 0
  then show ?case using chain_length[of cats ps] by simp
next
  case (Suc fuel)
  have "\<exists>y. map_option (treeNode c) (buildTree fuel cats (Some (c_id c))) = Some y"
    if "c \<in> set (filter (isChildOf pid) cats)" for c
  proof -
    from that Suc.prems have ch: "parentChain cats (c_id c # ps)" by (auto intro: child_chain)
    have "\<exists>ts. buildTree fuel cats (Some (c_id c)) = Some ts"
      using Suc.IH[OF Suc.prems(1) ch, of "Some (c_id c)"] Suc.prems(4) by simp
    then show ?thesis by auto
  qed
  then show ?case by (simp only: buildTree.simps) (rule those_map_ex, blast)
qed

lemma label_treeNode: "label (treeNode c ch) = projected c"
  by (simp add: label_def projected_def treeNode_def)

lemma children_treeNode: "children (treeNode c ch) = ch"
  by (simp add: treeNode_def)

lemma n_id_treeNode: "n_id (treeNode c ch) = c_id c"
  by (simp add: treeNode_def)

lemma subnodes_unfold: "subnodes t = t # allNodes (children t)"
  by (cases t) (simp add: allNodes_def)

lemma set_allNodes: "set (allNodes ts) = (\<Union>t\<in>set ts. set (subnodes t))"
  by (simp add: allNodes_def)

lemma buildTree_labels:
  assumes "buildTree n cats pid = Some ts"
  shows "map label ts = map projected (filter (isChildOf pid) cats)"
proof (cases n)
  case 0
  with assms show ?thesis by simp
next
  case (Suc m)
  with assms have "list_all2 (\<lambda>c t. \<exists>ch. buildTree m cats (Some (c_id c)) = Some ch \<and> t = treeNode c ch)
       (filter (isChildOf pid) cats) ts" by (simp only: buildTree_Suc_iff)
  then show ?thesis
    by (induction rule: list_all2_induct) (auto simp: label_treeNode)
qed

lemma buildTree_children:
  "buildTree n cats pid = Some ts \<Longrightarrow> t \<in> set (allNodes ts) \<Longrightarrow>
   map label (children t) = map projected (filter (isChildOf (Some (n_id t))) cats)"
proof (induction n arbitrary: pid ts t)
  case 0
  then show ?case by simp
next
  case (Suc n)
  from Suc.prems(1) have all: "list_all2 (\<lambda>c t. \<exists>ch. buildTree n cats (Some (c_id c)) = Some ch \<and> t = treeNode c ch)
       (filter (isChildOf pid) cats) ts" by (simp only: buildTree_Suc_iff)
  from Suc.prems(2) obtain r where r: "r \<in> set ts" "t \<in> set (subnodes r)"
    by (auto simp: set_allNodes)
  from all r(1) obtain c ch where c: "buildTree n cats (Some (c_id c)) = Some ch" "r = treeNode c ch"
    by (auto simp: list_all2_conv_all_nth in_set_conv_nth)
  from r(2) have "t = r \<or> t \<in> set (allNodes (children r))"
    by (simp add: subnodes_unfold)
  then show ?case
  proof
    assume "t = r"
    with c buildTree_labels[OF c(1)] show ?thesis
      by (simp add: children_treeNode n_id_treeNode del: isChildOf.simps)
  next
    assume "t \<in> set (allNodes (children r))"
    with c have "t \<in> set (allNodes ch)" by (simp add: children_treeNode)
    with Suc.IH[OF c(1)] show ?thesis .
  qed
qed

lemma buildTree_root:
  assumes "buildTree (Suc n) cats pid = Some ts" "t \<in> set ts"
  shows "\<exists>c ch. c \<in> set cats \<and> isChildOf pid c \<and>
           buildTree n cats (Some (c_id c)) = Some ch \<and> t = treeNode c ch"
proof -
  let ?cs = "filter (isChildOf pid) cats"
  from assms(1) have all: "list_all2 (\<lambda>c t. \<exists>ch. buildTree n cats (Some (c_id c)) = Some ch \<and> t = treeNode c ch)
       ?cs ts" by (simp only: buildTree_Suc_iff)
  from assms(2) obtain i where i: "i < length ts" "ts ! i = t"
    by (auto simp: in_set_conv_nth)
  from all have len: "length ?cs = length ts" by (rule list_all2_lengthD)
  from all i(1) have "\<exists>ch. buildTree n cats (Some (c_id (?cs ! i))) = Some ch \<and> ts ! i = treeNode (?cs ! i) ch"
    by (rule list_all2_nthD2)
  moreover from i(1) len have "i < length ?cs" by simp
  then have "?cs ! i \<in> set ?cs" by (rule nth_mem)
  then have "?cs ! i \<in> set cats \<and> isChildOf pid (?cs ! i)" by simp
  ultimately show ?thesis using i(2) by blast
qed

lemma buildTree_descend:
  "parentChain cats ps \<Longrightarrow> topOf ps = pid \<Longrightarrow> buildTree n cats pid = Some ts \<Longrightarrow>
   t \<in> set ts \<Longrightarrow> x \<in> n_id ` set (subnodes t) \<Longrightarrow>
   \<exists>as. parentChain cats (as @ n_id t # ps) \<and> hd (as @ [n_id t]) = x"
proof (induction n arbitrary: ps pid ts t)
  case 0
  then show ?case by simp
next
  case (Suc n)
  from buildTree_root[OF Suc.prems(3,4)] obtain c ch where c: "c \<in> set cats" "isChildOf pid c"
      "buildTree n cats (Some (c_id c)) = Some ch" "t = treeNode c ch"
    by blast
  from c(2) Suc.prems(2) have "isChildOf (topOf ps) c" by simp
  from child_chain[OF Suc.prems(1) c(1) this] c(4)
  have ch: "parentChain cats (n_id t # ps)" by (simp add: n_id_treeNode)
  have tp: "topOf (n_id t # ps) = Some (c_id c)" using c(4) by (simp add: n_id_treeNode)
  from Suc.prems(5) have "x \<in> n_id ` set (t # allNodes (children t))"
    by (simp only: subnodes_unfold)
  then have "x = n_id t \<or> x \<in> n_id ` set (allNodes ch)"
    using c(4) by (simp add: children_treeNode)
  then show ?case
  proof
    assume "x = n_id t"
    with ch have "parentChain cats ([] @ n_id t # ps) \<and> hd ([] @ [n_id t]) = x" by simp
    then show ?thesis by blast
  next
    assume "x \<in> n_id ` set (allNodes ch)"
    then obtain r where r: "r \<in> set ch" "x \<in> n_id ` set (subnodes r)"
      unfolding set_allNodes by blast
    from Suc.IH[OF ch tp c(3) r] obtain as where
      as: "parentChain cats (as @ n_id r # n_id t # ps)" "hd (as @ [n_id r]) = x"
      by blast
    have "hd ((as @ [n_id r]) @ [n_id t]) = hd (as @ [n_id r])" by (cases as) simp_all
    with as have "parentChain cats ((as @ [n_id r]) @ n_id t # ps) \<and> hd ((as @ [n_id r]) @ [n_id t]) = x"
      by simp
    then show ?thesis by blast
  qed
qed

lemma allNodes_append: "allNodes (t # ts) = subnodes t @ allNodes ts"
  by (simp add: allNodes_def)

lemma hd_snoc_Cons: "\<exists>qs. as @ [a] = hd (as @ [a]) # qs"
  by (cases as) simp_all

lemma chains_same_top:
  assumes d: "distinct (map c_id cats)"
    and a: "parentChain cats (as @ a # ps)" and b: "parentChain cats (bs @ b # ps)"
    and h: "hd (as @ [a]) = hd (bs @ [b])"
  shows "a = b"
proof -
  obtain x qa where qa: "as @ [a] = x # qa" by (cases as) auto
  obtain y qb where qb: "bs @ [b] = y # qb" by (cases bs) auto
  have xy: "x = y" using h unfolding qa qb by simp
  have "as @ a # ps = (as @ [a]) @ ps" by simp
  also have "\<dots> = x # qa @ ps" unfolding qa by simp
  finally have ea: "as @ a # ps = x # qa @ ps" .
  have "bs @ b # ps = (bs @ [b]) @ ps" by simp
  also have "\<dots> = x # qb @ ps" unfolding qb xy by simp
  finally have eb: "bs @ b # ps = x # qb @ ps" .
  from a have ca: "parentChain cats (x # qa @ ps)" unfolding ea .
  from b have cb: "parentChain cats (x # qb @ ps)" unfolding eb .
  from chain_unique[OF d ca cb] have "qa = qb" by simp
  then have "as @ [a] = bs @ [b]" unfolding qa qb xy by simp
  then show ?thesis by simp
qed

lemma siblings_disjoint:
  assumes "distinct (map c_id cats)" "parentChain cats ps" "topOf ps = pid"
    "buildTree n cats pid = Some ts" "t \<in> set ts" "t' \<in> set ts"
    "x \<in> n_id ` set (subnodes t)" "x \<in> n_id ` set (subnodes t')"
  shows "n_id t = n_id t'"
proof -
  from buildTree_descend[OF assms(2,3,4,5,7)] obtain as where
    as: "parentChain cats (as @ n_id t # ps)" "hd (as @ [n_id t]) = x" by blast
  from buildTree_descend[OF assms(2,3,4,6,8)] obtain bs where
    bs: "parentChain cats (bs @ n_id t' # ps)" "hd (bs @ [n_id t']) = x" by blast
  from as(2) bs(2) have "hd (as @ [n_id t]) = hd (bs @ [n_id t'])" by simp
  from chains_same_top[OF assms(1) as(1) bs(1) this] show ?thesis .
qed

lemma self_not_below:
  assumes "distinct (map c_id cats)" "parentChain cats ps" "topOf ps = pid"
    "buildTree n cats pid = Some ts" "t \<in> set ts"
  shows "n_id t \<notin> n_id ` set (allNodes (children t))"
proof
  assume below: "n_id t \<in> n_id ` set (allNodes (children t))"
  from assms(4,5) obtain m where n: "n = Suc m" by (cases n) auto
  from buildTree_root[OF assms(4)[unfolded n] assms(5)] obtain c ch where
    c: "c \<in> set cats" "isChildOf pid c" "buildTree m cats (Some (c_id c)) = Some ch" "t = treeNode c ch"
    by blast
  from c(2) assms(3) have "isChildOf (topOf ps) c" by simp
  from child_chain[OF assms(2) c(1) this] c(4)
  have ch: "parentChain cats (n_id t # ps)" by (simp add: n_id_treeNode)
  have tp: "topOf (n_id t # ps) = Some (c_id c)" using c(4) by (simp add: n_id_treeNode)
  from below c(4) obtain r where r: "r \<in> set ch" "n_id t \<in> n_id ` set (subnodes r)"
    unfolding set_allNodes by (auto simp: children_treeNode)
  from buildTree_descend[OF ch tp c(3) r] obtain as where
    as: "parentChain cats (as @ n_id r # n_id t # ps)" "hd (as @ [n_id r]) = n_id t" by blast
  have "distinct (as @ n_id r # n_id t # ps)" using chain_distinct[OF assms(1) as(1)] .
  moreover have "n_id t \<in> set (as @ [n_id r])"
    using as(2) hd_in_set[of "as @ [n_id r]"] by simp
  ultimately show False by auto
qed

lemma distinct_allNodes:
  assumes "distinct (map n_id ts)"
    and "\<And>t. t \<in> set ts \<Longrightarrow> distinct (map n_id (subnodes t))"
    and "\<And>t t' x. t \<in> set ts \<Longrightarrow> t' \<in> set ts \<Longrightarrow> x \<in> n_id ` set (subnodes t) \<Longrightarrow>
           x \<in> n_id ` set (subnodes t') \<Longrightarrow> n_id t = n_id t'"
  shows "distinct (map n_id (allNodes ts))"
  using assms
proof (induction ts)
  case Nil
  show ?case by (simp add: allNodes_def)
next
  case (Cons t ts)
  have 1: "distinct (map n_id (subnodes t))" by (rule Cons.prems(2)) simp
  have 2: "distinct (map n_id (allNodes ts))"
  proof (rule Cons.IH)
    show "distinct (map n_id ts)" using Cons.prems(1) by simp
    show "distinct (map n_id (subnodes u))" if "u \<in> set ts" for u
      by (rule Cons.prems(2)) (use that in simp)
    show "n_id u = n_id u'" if "u \<in> set ts" "u' \<in> set ts" "x \<in> n_id ` set (subnodes u)"
      "x \<in> n_id ` set (subnodes u')" for u u' x
      by (rule Cons.prems(3)[of u u' x]) (use that in simp_all)
  qed
  have 3: "n_id ` set (subnodes t) \<inter> n_id ` set (allNodes ts) = {}"
  proof (rule ccontr)
    assume "\<not> ?thesis"
    then obtain x where x: "x \<in> n_id ` set (subnodes t)" "x \<in> n_id ` set (allNodes ts)" by blast
    from x(2) obtain t' where t': "t' \<in> set ts" "x \<in> n_id ` set (subnodes t')"
      unfolding set_allNodes by blast
    have "n_id t = n_id t'"
      by (rule Cons.prems(3)[of t t' x]) (use x(1) t' in simp_all)
    moreover from t'(1) have "n_id t' \<in> set (map n_id ts)" by simp
    ultimately show False using Cons.prems(1) by simp
  qed
  from 1 2 3 show ?case by (simp add: allNodes_append)
qed

lemma buildTree_root_ids:
  assumes "buildTree n cats pid = Some ts"
  shows "map n_id ts = map c_id (filter (isChildOf pid) cats)"
proof -
  have "map n_id ts = map fst (map label ts)" by (simp add: label_def comp_def)
  also have "\<dots> = map fst (map projected (filter (isChildOf pid) cats))"
    by (simp only: buildTree_labels[OF assms])
  also have "\<dots> = map c_id (filter (isChildOf pid) cats)" by (simp add: projected_def comp_def)
  finally show ?thesis .
qed

lemma buildTree_distinct:
  "distinct (map c_id cats) \<Longrightarrow> parentChain cats ps \<Longrightarrow> topOf ps = pid \<Longrightarrow>
   buildTree n cats pid = Some ts \<Longrightarrow> distinct (map n_id (allNodes ts))"
proof (induction n arbitrary: ps pid ts)
  case 0
  then show ?case by simp
next
  case (Suc n)
  have roots: "distinct (map n_id ts)"
    using Suc.prems(1) by (simp add: buildTree_root_ids[OF Suc.prems(4)] distinct_map_filter)
  have sub: "distinct (map n_id (subnodes t))" if t: "t \<in> set ts" for t
  proof -
    from buildTree_root[OF Suc.prems(4) t] obtain c ch where
      c: "c \<in> set cats" "isChildOf pid c" "buildTree n cats (Some (c_id c)) = Some ch" "t = treeNode c ch"
      by blast
    from c(2) Suc.prems(3) have "isChildOf (topOf ps) c" by simp
    from child_chain[OF Suc.prems(2) c(1) this]
    have ch: "parentChain cats (c_id c # ps)" .
    have "distinct (map n_id (allNodes ch))"
      using Suc.IH[OF Suc.prems(1) ch _ c(3)] by simp
    moreover have "n_id t \<notin> n_id ` set (allNodes (children t))"
      using self_not_below[OF Suc.prems(1,2,3,4) t] .
    ultimately show ?thesis using c(4) by (simp add: subnodes_unfold children_treeNode)
  qed
  show ?case
  proof (rule distinct_allNodes[OF roots])
    show "distinct (map n_id (subnodes t))" if "t \<in> set ts" for t using sub[OF that] .
    show "n_id t = n_id t'" if "t \<in> set ts" "t' \<in> set ts" "x \<in> n_id ` set (subnodes t)"
      "x \<in> n_id ` set (subnodes t')" for t t' x
      using siblings_disjoint[OF Suc.prems(1,2,3,4) that] .
  qed
qed

lemma find_id:
  assumes "distinct (map c_id cats)" "c \<in> set cats"
  shows "find (\<lambda>d. c_id d = c_id c) cats = Some c"
proof (cases "find (\<lambda>d. c_id d = c_id c) cats")
  case None
  with assms(2) show ?thesis by (auto simp: find_None_iff)
next
  case (Some d)
  then have "d \<in> set cats" "c_id d = c_id c" by (auto simp: find_Some_iff)
  with ids_inj[OF assms(1) _ assms(2)] Some show ?thesis by simp
qed

lemma climb_chain: "climb n cats x \<Longrightarrow> \<exists>ps. parentChain cats (x # ps)"
proof (induction n arbitrary: x)
  case 0
  then show ?case by simp
next
  case (Suc n)
  from Suc.prems obtain c where f: "find (\<lambda>c. c_id c = x) cats = Some c"
    by (auto split: option.splits)
  then have c: "c \<in> set cats" "c_id c = x" by (auto simp: find_Some_iff)
  show ?case
  proof (cases "c_parentCategory c")
    case None
    with c have "parentChain cats [x]" by auto
    then show ?thesis by blast
  next
    case (Some p)
    with Suc.prems f have "climb n cats p" by simp
    from Suc.IH[OF this] obtain ps where "parentChain cats (p # ps)" by blast
    with c Some have "parentChain cats (x # p # ps)" by auto
    then show ?thesis by blast
  qed
qed

lemma chain_climb:
  "distinct (map c_id cats) \<Longrightarrow> parentChain cats (x # ps) \<Longrightarrow> length ps < n \<Longrightarrow> climb n cats x"
proof (induction n arbitrary: x ps)
  case 0
  then show ?case by simp
next
  case (Suc n)
  show ?case
  proof (cases ps)
    case Nil
    with Suc.prems(2) obtain c where c: "c \<in> set cats" "c_id c = x" "c_parentCategory c = None"
      by auto
    with find_id[OF Suc.prems(1) c(1)] show ?thesis by simp
  next
    case (Cons y ys)
    with Suc.prems(2) obtain c where c: "c \<in> set cats" "c_id c = x" "c_parentCategory c = Some y"
      and ch: "parentChain cats (y # ys)" by auto
    from Suc.prems(3) Cons have "length ys < n" by simp
    from Suc.IH[OF Suc.prems(1) ch this] have "climb n cats y" .
    with find_id[OF Suc.prems(1) c(1)] c show ?thesis by simp
  qed
qed

lemma reachable_iff_chain:
  assumes "distinct (map c_id cats)"
  shows "reachable cats x \<longleftrightarrow> (\<exists>ps. parentChain cats (x # ps))"
proof
  assume "reachable cats x"
  then show "\<exists>ps. parentChain cats (x # ps)" unfolding reachable_def by (rule climb_chain)
next
  assume "\<exists>ps. parentChain cats (x # ps)"
  then obtain ps where ps: "parentChain cats (x # ps)" by blast
  from chain_length[OF assms ps] have "length ps < length cats" by simp
  from chain_climb[OF assms ps this] show "reachable cats x" unfolding reachable_def .
qed

lemma subnodes_children:
  "t \<in> set (allNodes ts) \<Longrightarrow> t' \<in> set (children t) \<Longrightarrow> t' \<in> set (allNodes ts)"
proof -
  have sub: "t \<in> set (subnodes r) \<Longrightarrow> t' \<in> set (children t) \<Longrightarrow> t' \<in> set (subnodes r)" for r
  proof (induction r)
    case (Node i n s d im ch)
    from Node.prems(1) have "t = Node i n s d im ch \<or> (\<exists>r\<in>set ch. t \<in> set (subnodes r))"
      by auto
    then show ?case
    proof
      assume "t = Node i n s d im ch"
      with Node.prems(2) have "t' \<in> set ch" by simp
      moreover have "t' \<in> set (subnodes t')" by (simp add: subnodes_unfold)
      ultimately show ?thesis by auto
    next
      assume "\<exists>r\<in>set ch. t \<in> set (subnodes r)"
      then obtain r where r: "r \<in> set ch" "t \<in> set (subnodes r)" by blast
      from Node.IH[OF r(1) r(2) Node.prems(2)] r(1) show ?thesis by auto
    qed
  qed
  show "t \<in> set (allNodes ts) \<Longrightarrow> t' \<in> set (children t) \<Longrightarrow> t' \<in> set (allNodes ts)"
    unfolding set_allNodes using sub by blast
qed

lemma chain_in_tree:
  assumes bt: "buildTree n cats None = Some ts"
  shows "parentChain cats (x # qs) \<Longrightarrow> x \<in> n_id ` set (allNodes ts)"
proof (induction qs arbitrary: x)
  case Nil
  then obtain c where c: "c \<in> set cats" "c_id c = x" "c_parentCategory c = None" by auto
  then have "x \<in> set (map c_id (filter (isChildOf None) cats))" by auto
  then have "x \<in> set (map n_id ts)" by (simp only: buildTree_root_ids[OF bt])
  then obtain t where "t \<in> set ts" "n_id t = x" by auto
  moreover have "t \<in> set (subnodes t)" by (simp add: subnodes_unfold)
  ultimately show ?case unfolding set_allNodes by blast
next
  case (Cons y ys)
  then obtain c where c: "c \<in> set cats" "c_id c = x" "c_parentCategory c = Some y"
    and ch: "parentChain cats (y # ys)" by auto
  from Cons.IH[OF ch] obtain t where t: "t \<in> set (allNodes ts)" "n_id t = y" by auto
  from c have "projected c \<in> set (map projected (filter (isChildOf (Some (n_id t))) cats))"
    using t(2) by auto
  then have "projected c \<in> set (map label (children t))"
    by (simp only: buildTree_children[OF bt t(1)])
  then obtain t' where t': "t' \<in> set (children t)" "label t' = projected c" by auto
  then have "n_id t' = x" using c(2) by (simp add: label_def projected_def)
  moreover from subnodes_children[OF t(1) t'(1)] have "t' \<in> set (allNodes ts)" .
  ultimately show ?case by blast
qed

lemma tree_ids_reachable:
  assumes d: "distinct (map c_id cats)" and bt: "buildTree n cats None = Some ts"
  shows "set (map n_id (allNodes ts)) = {x \<in> c_id ` set cats. reachable cats x}"
proof (intro equalityI subsetI)
  fix x assume "x \<in> set (map n_id (allNodes ts))"
  then obtain u where u: "u \<in> set (allNodes ts)" "x = n_id u" by auto
  from u(1) obtain t where t0: "t \<in> set ts" "u \<in> set (subnodes t)"
    unfolding set_allNodes by blast
  with u(2) have t: "t \<in> set ts" "x \<in> n_id ` set (subnodes t)" by simp_all
  have "parentChain cats []" "topOf [] = None" by simp_all
  from buildTree_descend[OF this bt t] obtain as where
    as: "parentChain cats (as @ [n_id t])" "hd (as @ [n_id t]) = x" by auto
  obtain qs where qs: "as @ [n_id t] = x # qs" using hd_snoc_Cons[of as "n_id t"] as(2) by auto
  with as(1) have c: "parentChain cats (x # qs)" by simp
  then have "reachable cats x" using reachable_iff_chain[OF d] by blast
  moreover from chain_ids[OF c] have "x \<in> c_id ` set cats" by simp
  ultimately show "x \<in> {x \<in> c_id ` set cats. reachable cats x}" by simp
next
  fix x assume "x \<in> {x \<in> c_id ` set cats. reachable cats x}"
  then obtain qs where "parentChain cats (x # qs)" using reachable_iff_chain[OF d] by blast
  from chain_in_tree[OF bt this] show "x \<in> set (map n_id (allNodes ts))" by simp
qed

lemma isChildOf_eq: "isChildOf pid = (\<lambda>c. c_parentCategory c = pid)"
  by (rule ext, cases pid) (auto split: option.splits)

lemma getCategoryTree_returns:
  assumes "distinct (map c_id (categories s))"
  shows "\<exists>tree. getCategoryTree (Suc (length (categories s))) s = Some (Success 200 tree)"
proof -
  let ?active = "filter c_isActive (categories s)"
  from assms have d: "distinct (map c_id ?active)" by (rule distinct_map_filter)
  have e: "parentChain ?active []" "topOf [] = None" by simp_all
  have "length ?active < Suc (length (categories s)) + length ([] :: oid list)"
    by (simp add: le_imp_less_Suc)
  from buildTree_fuel[OF d e this] show ?thesis by (auto simp: getCategoryTree_def)
qed

lemma buildTree_duplicate_below: "buildTree n exampleDuplicate (Some 1) = None"
  by (induction n) (simp_all add: exampleDuplicate_def mkCategory_def)

lemma buildTree_needs_unique_ids: "buildTree n exampleDuplicate None = None"
proof (cases n)
  case 0
  then show ?thesis by simp
next
  case (Suc m)
  have "filter (isChildOf None) exampleDuplicate = [mkCategory 1 ''A'' None]"
    by (simp add: exampleDuplicate_def mkCategory_def)
  moreover have "c_id (mkCategory 1 ''A'' None) = 1" by (simp add: mkCategory_def)
  ultimately show ?thesis using buildTree_duplicate_below[of m] Suc by simp
qed

subsection \<open>Termination of the tree construction, also with cycles\<close>

text \<open>
  Claim C2. For every stored collection of categories, also one whose parent references
  contain a cycle (a category that is its own parent, or two that are each other's),
  \<open>buildTree()\<close> returns: more fuel than there are categories always suffices, and the
  result does not depend on the fuel. A category that cannot be reached from a root is
  not in the tree, and its presence is no error. The store keeps ids unique; without that
  the recursion need not end (\<open>buildTree_needs_unique_ids\<close>).
\<close>

theorem buildTree_terminates:
  assumes "distinct (map c_id cats)"
  shows "\<exists>tree. (\<forall>fuel. length cats < fuel \<longrightarrow> buildTree fuel cats None = Some tree) \<and>
           (\<forall>c\<in>set cats. \<not> reachable cats (c_id c) \<longrightarrow>
                c_id c \<notin> set (map n_id (allNodes tree)))"
proof -
  have "parentChain cats []" "topOf [] = None" by simp_all
  from buildTree_fuel[OF assms this, of "Suc (length cats)"]
  obtain tree where tree: "buildTree (Suc (length cats)) cats None = Some tree"
    by auto
  have "buildTree fuel cats None = Some tree" if "length cats < fuel" for fuel
    using buildTree_mono[OF tree, of fuel] that by simp
  moreover have "c_id c \<notin> set (map n_id (allNodes tree))"
    if "\<not> reachable cats (c_id c)" for c
    using that unfolding tree_ids_reachable[OF assms tree] by simp
  ultimately show ?thesis by blast
qed

text \<open>
  The theorem at \<open>exampleCyclic\<close>: the tree is R with its child K, for every fuel above
  5; the self-parent S and the cycle A, B are not reachable and not in the tree.
\<close>

theorem buildTree_terminates_witness:
  "distinct (map c_id exampleCyclic) \<and>
   buildTree 6 exampleCyclic None = Some [mkNode 1 ''R'' [mkNode 2 ''K'' []]] \<and>
   buildTree 9 exampleCyclic None = Some [mkNode 1 ''R'' [mkNode 2 ''K'' []]] \<and>
   \<not> reachable exampleCyclic 3 \<and> \<not> reachable exampleCyclic 4 \<and> \<not> reachable exampleCyclic 5 \<and>
   map n_id (allNodes [mkNode 1 ''R'' [mkNode 2 ''K'' []]]) = [1, 2]"
proof -
  have d: "distinct (map c_id exampleCyclic)"
    by (simp add: exampleCyclic_def mkCategory_def)
  have e: "buildTree 6 exampleCyclic None = Some [mkNode 1 ''R'' [mkNode 2 ''K'' []]]"
    by (simp add: exampleCyclic_def mkCategory_def mkNode_def treeNode_def numeral_eq_Suc)
  have r: "\<not> reachable exampleCyclic 3" "\<not> reachable exampleCyclic 4" "\<not> reachable exampleCyclic 5"
    by (simp_all add: exampleCyclic_def mkCategory_def reachable_def numeral_eq_Suc)
  have n: "map n_id (allNodes [mkNode 1 ''R'' [mkNode 2 ''K'' []]]) = [1, 2]"
    by (simp add: allNodes_def mkNode_def)
  from buildTree_terminates[OF d] obtain tree where
    t: "\<forall>fuel. length exampleCyclic < fuel \<longrightarrow> buildTree fuel exampleCyclic None = Some tree"
    by blast
  have l: "length exampleCyclic = 5" by (simp add: exampleCyclic_def)
  from t l have "buildTree 6 exampleCyclic None = Some tree" by simp
  with e have "tree = [mkNode 1 ''R'' [mkNode 2 ''K'' []]]" by simp
  moreover from t l have "buildTree 9 exampleCyclic None = Some tree" by simp
  ultimately have "buildTree 9 exampleCyclic None = Some [mkNode 1 ''R'' [mkNode 2 ''K'' []]]" by simp
  with d e r n show ?thesis by simp
qed

subsection \<open>The shape of the tree\<close>

text \<open>
  Claim C9. \<open>buildTree()\<close> returns a tree whose roots are exactly the categories
  without a parent, in which the children of every node are exactly the categories whose
  parent is the id of the node, and in which every node carries the five projected fields
  of its category (id, name, slug, description, image); the tree has one node for each
  category that is reachable from a root and no other node. This holds for every
  collection with unique ids, in particular for every cycle-free one.
\<close>

theorem buildTree_forest:
  assumes "distinct (map c_id cats)"
  shows "\<exists>tree. buildTree (Suc (length cats)) cats None = Some tree \<and>
           map label tree = map projected (filter (\<lambda>c. c_parentCategory c = None) cats) \<and>
           (\<forall>t\<in>set (allNodes tree). map label (children t) =
                map projected (filter (\<lambda>c. c_parentCategory c = Some (n_id t)) cats)) \<and>
           distinct (map n_id (allNodes tree)) \<and>
           set (map n_id (allNodes tree)) = {x \<in> c_id ` set cats. reachable cats x}"
proof -
  have e: "parentChain cats []" "topOf [] = None" by simp_all
  from buildTree_fuel[OF assms this, of "Suc (length cats)"]
  obtain tree where tree: "buildTree (Suc (length cats)) cats None = Some tree"
    by auto
  have 1: "map label tree = map projected (filter (\<lambda>c. c_parentCategory c = None) cats)"
    using buildTree_labels[OF tree] by (simp only: isChildOf_eq)
  have 2: "map label (children t) =
      map projected (filter (\<lambda>c. c_parentCategory c = Some (n_id t)) cats)"
    if "t \<in> set (allNodes tree)" for t
    using buildTree_children[OF tree that] by (simp only: isChildOf_eq)
  have 3: "distinct (map n_id (allNodes tree))"
    using buildTree_distinct[OF assms e tree] .
  have 4: "set (map n_id (allNodes tree)) = {x \<in> c_id ` set cats. reachable cats x}"
    using tree_ids_reachable[OF assms tree] .
  from tree 1 2 3 4 show ?thesis by blast
qed

text \<open>
  The theorem at \<open>exampleForest\<close>: the categories A (root), B (parent A), C (parent B)
  and D (root) give the two roots A and D, with B below A and C below B.
\<close>

theorem buildTree_forest_witness:
  "distinct (map c_id exampleForest) \<and>
   buildTree 5 exampleForest None =
     Some [mkNode 1 ''A'' [mkNode 2 ''B'' [mkNode 3 ''C'' []]], mkNode 4 ''D'' []] \<and>
   map n_id (allNodes [mkNode 1 ''A'' [mkNode 2 ''B'' [mkNode 3 ''C'' []]], mkNode 4 ''D'' []]) = [1, 2, 3, 4] \<and>
   map (reachable exampleForest) [1, 2, 3, 4] = [True, True, True, True]"
proof -
  have d: "distinct (map c_id exampleForest)"
    by (simp add: exampleForest_def mkCategory_def)
  have e: "buildTree 5 exampleForest None =
     Some [mkNode 1 ''A'' [mkNode 2 ''B'' [mkNode 3 ''C'' []]], mkNode 4 ''D'' []]"
    by (simp add: exampleForest_def mkCategory_def mkNode_def treeNode_def numeral_eq_Suc)
  have n: "map n_id (allNodes [mkNode 1 ''A'' [mkNode 2 ''B'' [mkNode 3 ''C'' []]], mkNode 4 ''D'' []]) = [1, 2, 3, 4]"
    by (simp add: allNodes_def mkNode_def)
  have r: "map (reachable exampleForest) [1, 2, 3, 4] = [True, True, True, True]"
    by (simp add: exampleForest_def mkCategory_def reachable_def numeral_eq_Suc)
  from buildTree_forest[OF d] obtain tree where
    t: "buildTree (Suc (length exampleForest)) exampleForest None = Some tree"
       "distinct (map n_id (allNodes tree))"
    by blast
  from d e n r t show ?thesis by simp
qed

section \<open>Properties of the rating aggregator\<close>

subsection \<open>Single-document writes\<close>

lemma updateFirst_ids:
  "(\<And>x. g (f x) = g x) \<Longrightarrow> map g (updateFirst P f xs) = map g xs"
  by (induction xs) auto

lemma updateFirst_length: "length (updateFirst P f xs) = length xs"
  by (induction xs) auto

lemma updateFirst_none: "\<forall>x\<in>set xs. \<not> P x \<Longrightarrow> updateFirst P f xs = xs"
  by (induction xs) auto

lemma updateFirst_other:
  "j < length xs \<Longrightarrow> \<not> P (xs ! j) \<Longrightarrow> updateFirst P f xs ! j = xs ! j"
proof (induction xs arbitrary: j)
  case Nil
  then show ?case by simp
next
  case (Cons x xs)
  then show ?case by (cases j) auto
qed

lemma updateFirst_single:
  "\<exists>k. \<forall>j. j \<noteq> k \<longrightarrow> updateFirst P f xs ! j = xs ! j"
proof (induction xs)
  case Nil
  then show ?case by simp
next
  case (Cons x xs)
  show ?case
  proof (cases "P x")
    case True
    have "\<forall>j. j \<noteq> 0 \<longrightarrow> updateFirst P f (x # xs) ! j = (x # xs) ! j"
      using True by (simp add: nth_Cons')
    then show ?thesis by blast
  next
    case False
    from Cons.IH obtain k where k: "\<forall>j. j \<noteq> k \<longrightarrow> updateFirst P f xs ! j = xs ! j" by blast
    have "\<forall>j. j \<noteq> Suc k \<longrightarrow> updateFirst P f (x # xs) ! j = (x # xs) ! j"
    proof (intro allI impI)
      fix j assume "j \<noteq> Suc k"
      then show "updateFirst P f (x # xs) ! j = (x # xs) ! j"
        using False k by (cases j) auto
    qed
    then show ?thesis by blast
  qed
qed

lemma updateFirst_distinct:
  "distinct (map g xs) \<Longrightarrow>
   updateFirst (\<lambda>x. g x = i) f xs = map (\<lambda>x. if g x = i then f x else x) xs"
proof (induction xs)
  case Nil
  then show ?case by simp
next
  case (Cons x xs)
  show ?case
  proof (cases "g x = i")
    case True
    with Cons.prems have "i \<notin> g ` set xs" by simp
    then have "\<forall>y\<in>set xs. g y \<noteq> i" by blast
    then have "map (\<lambda>x. if g x = i then f x else x) xs = xs"
      by (induction xs) auto
    with True show ?thesis by simp
  next
    case False
    with Cons show ?thesis by simp
  qed
qed

lemma find_updateFirst:
  "(\<And>x. P x \<Longrightarrow> P (f x)) \<Longrightarrow> find P (updateFirst P f xs) = map_option f (find P xs)"
  by (induction xs) auto

lemma filter_updateFirst_other:
  "find P xs = Some r \<Longrightarrow> \<not> Q r \<Longrightarrow> \<not> Q (f r) \<Longrightarrow>
   filter Q (updateFirst P f xs) = filter Q xs"
  by (induction xs) (auto split: if_splits)

lemma filter_removeFirst_other:
  "find P xs = Some r \<Longrightarrow> \<not> Q r \<Longrightarrow> filter Q (removeFirst P xs) = filter Q xs"
  by (induction xs) (auto split: if_splits)

lemma calculateAverageRating_eq:
  "calculateAverageRating s i =
     s\<lparr>products := updateFirst (\<lambda>p. p_id p = i)
         (\<lambda>p. p\<lparr>p_rating := meanRating (reviews s) i, p_numReviews := countReviews (reviews s) i\<rparr>)
         (products s)\<rparr>"
  by (simp add: calculateAverageRating_def aggregate_def productFindByIdAndUpdate_def
        meanRating_def countReviews_def Let_def)

lemma calculateAverageRating_reviews: "reviews (calculateAverageRating s i) = reviews s"
  by (simp add: calculateAverageRating_eq)

lemma calculateAverageRating_ids:
  "map p_id (products (calculateAverageRating s i)) = map p_id (products s)"
  by (simp add: calculateAverageRating_eq updateFirst_ids)

lemma aggregates_of_filter:
  "filter (\<lambda>r. r_product r = q) rs' = filter (\<lambda>r. r_product r = q) rs \<Longrightarrow>
   meanRating rs' q = meanRating rs q \<and> countReviews rs' q = countReviews rs q"
  by (simp add: meanRating_def countReviews_def)

lemma recompute_consistent:
  assumes d: "distinct (map p_id (products s))"
    and c: "aggregateConsistent s"
    and p: "products s' = products s"
    and o: "\<And>q. q \<noteq> t \<Longrightarrow>
              filter (\<lambda>r. r_product r = q) (reviews s') = filter (\<lambda>r. r_product r = q) (reviews s)"
  shows "aggregateConsistent (calculateAverageRating s' t)"
proof -
  let ?f = "\<lambda>p. p\<lparr>p_rating := meanRating (reviews s') t, p_numReviews := countReviews (reviews s') t\<rparr>"
  have prods: "products (calculateAverageRating s' t) =
      map (\<lambda>p. if p_id p = t then ?f p else p) (products s)"
    using d by (simp add: calculateAverageRating_eq p updateFirst_distinct)
  have "p_rating x = meanRating (reviews s') (p_id x) \<and>
        p_numReviews x = countReviews (reviews s') (p_id x)"
    if x: "x \<in> set (products (calculateAverageRating s' t))" for x
  proof -
    from x obtain y where y: "y \<in> set (products s)" "x = (if p_id y = t then ?f y else y)"
      unfolding prods by auto
    show ?thesis
    proof (cases "p_id y = t")
      case True
      with y show ?thesis by simp
    next
      case False
      with y have xy: "x = y" by simp
      from c y(1) have "p_rating y = meanRating (reviews s) (p_id y) \<and>
        p_numReviews y = countReviews (reviews s) (p_id y)"
        by (simp add: aggregateConsistent_def)
      with aggregates_of_filter[OF o[OF False]] xy show ?thesis by simp
    qed
  qed
  then show ?thesis
    by (simp add: aggregateConsistent_def calculateAverageRating_reviews)
qed

lemma calculateAverageRating_exact:
  assumes "distinct (map p_id (products s))"
    and "p \<in> set (products (calculateAverageRating s t))" and "p_id p = t"
  shows "p_rating p = meanRating (reviews s) t \<and> p_numReviews p = countReviews (reviews s) t"
proof -
  let ?f = "\<lambda>p. p\<lparr>p_rating := meanRating (reviews s) t, p_numReviews := countReviews (reviews s) t\<rparr>"
  have "products (calculateAverageRating s t) = map (\<lambda>p. if p_id p = t then ?f p else p) (products s)"
    using assms(1) by (simp add: calculateAverageRating_eq updateFirst_distinct)
  with assms(2) obtain y where "y \<in> set (products s)" "p = (if p_id y = t then ?f y else y)"
    by auto
  with assms(3) show ?thesis by (cases "p_id y = t") simp_all
qed

lemma find_Some_props: "find P xs = Some r \<Longrightarrow> P r \<and> r \<in> set xs"
  by (induction xs) (auto split: if_splits)

lemma applyOp_consistent:
  assumes d: "distinct (map p_id (products s))"
    and c: "aggregateConsistent s"
    and a: "applyOp s x = Inr s'"
  shows "aggregateConsistent s' \<and> map p_id (products s') = map p_id (products s)"
proof (cases x)
  case (Create r)
  let ?s1 = "s\<lparr>reviews := reviews s @ [r]\<rparr>"
  from a Create have s': "s' = calculateAverageRating ?s1 (r_product r)"
    by (simp add: createReview_def postSave_def split: if_splits)
  have "aggregateConsistent (calculateAverageRating ?s1 (r_product r))"
    by (rule recompute_consistent[OF d c]) simp_all
  then show ?thesis unfolding s' by (simp add: calculateAverageRating_ids)
next
  case (Update i rating)
  from a Update obtain r where r: "find (\<lambda>r. r_id r = i) (reviews s) = Some r"
    by (auto simp: updateReview_def split: option.splits)
  let ?s1 = "s\<lparr>reviews := updateFirst (\<lambda>q. r_id q = i) (\<lambda>q. r\<lparr>r_rating := rating\<rparr>) (reviews s)\<rparr>"
  from a Update r have s': "s' = calculateAverageRating ?s1 (r_product r)"
    by (simp add: updateReview_def postSave_def)
  have "aggregateConsistent (calculateAverageRating ?s1 (r_product r))"
  proof (rule recompute_consistent[OF d c])
    show "products ?s1 = products s" by simp
    show "filter (\<lambda>r. r_product r = q) (reviews ?s1) = filter (\<lambda>r. r_product r = q) (reviews s)"
      if "q \<noteq> r_product r" for q
      using filter_updateFirst_other[OF r, of "\<lambda>r. r_product r = q" "\<lambda>q. r\<lparr>r_rating := rating\<rparr>"] that
      by simp
  qed
  then show ?thesis unfolding s' by (simp add: calculateAverageRating_ids)
next
  case (Delete i)
  from a Delete obtain r where r: "find (\<lambda>r. r_id r = i) (reviews s) = Some r"
    by (auto simp: deleteReview_def split: option.splits)
  let ?s1 = "s\<lparr>reviews := removeFirst (\<lambda>q. r_id q = i) (reviews s)\<rparr>"
  from a Delete r have s': "s' = calculateAverageRating ?s1 (r_product r)"
    by (simp add: deleteReview_def postRemove_def)
  have "aggregateConsistent (calculateAverageRating ?s1 (r_product r))"
  proof (rule recompute_consistent[OF d c])
    show "products ?s1 = products s" by simp
    show "filter (\<lambda>r. r_product r = q) (reviews ?s1) = filter (\<lambda>r. r_product r = q) (reviews s)"
      if "q \<noteq> r_product r" for q
      using filter_removeFirst_other[OF r, of "\<lambda>r. r_product r = q"] that by simp
  qed
  then show ?thesis unfolding s' by (simp add: calculateAverageRating_ids)
qed

subsection \<open>The aggregate after review operations\<close>

text \<open>
  Claim C1. After any sequence of review creations, updates and deletions, each settled
  with its hook, every product carries as rating the mean of the ratings of the reviews
  that reference it and as \<open>numReviews\<close> their number. The sequence starts in a store
  where this holds (such as one without reviews whose products carry the defaults 0 and
  0); the aggregate is 0 and 0 for a product without reviews.
\<close>

theorem rating_aggregate_invariant:
  "distinct (map p_id (products s)) \<Longrightarrow> aggregateConsistent s \<Longrightarrow>
   aggregateConsistent (settle s ops)"
proof (induction ops arbitrary: s)
  case Nil
  then show ?case by simp
next
  case (Cons x xs)
  show ?case
  proof (cases "applyOp s x")
    case (Inl e)
    with Cons show ?thesis by simp
  next
    case (Inr s')
    from applyOp_consistent[OF Cons.prems Inr]
    have "aggregateConsistent s'" "distinct (map p_id (products s'))"
      using Cons.prems(1) by simp_all
    with Cons.IH[of s'] Inr show ?thesis by simp
  qed
qed

text \<open>
  The theorem at \<open>exampleStore\<close> and \<open>exampleOps\<close>: product 1 ends with the ratings 4
  and 5, product 2 with the rating 4 alone.
\<close>

theorem rating_aggregate_invariant_witness:
  "distinct (map p_id (products exampleStore)) \<and> aggregateConsistent exampleStore \<and>
   aggregateConsistent (settle exampleStore exampleOps) \<and>
   map (\<lambda>p. (p_id p, p_rating p, p_numReviews p)) (products (settle exampleStore exampleOps)) =
     [(1, 9 / 2, 2), (2, 4, 1)]"
proof -
  have d: "distinct (map p_id (products exampleStore))"
    by (simp add: exampleStore_def mkProduct_def)
  have c: "aggregateConsistent exampleStore"
    by (simp add: aggregateConsistent_def exampleStore_def mkProduct_def meanRating_def countReviews_def)
  have e: "map (\<lambda>p. (p_id p, p_rating p, p_numReviews p)) (products (settle exampleStore exampleOps)) =
     [(1, 9 / 2, 2), (2, 4, 1)]"
    by (simp add: exampleStore_def exampleOps_def mkProduct_def mkReview_def createReview_def updateReview_def
          deleteReview_def postSave_def postRemove_def calculateAverageRating_def aggregate_def
          productFindByIdAndUpdate_def Let_def)
  from rating_aggregate_invariant[OF d c, of exampleOps] d c e show ?thesis by simp
qed

subsection \<open>The aggregator on one product\<close>

text \<open>
  Claim C7. When no review references a product, \<open>calculateAverageRating\<close> writes
  rating 0 and \<open>numReviews\<close> 0 onto the product's document and leaves its other fields
  as they were.
\<close>

theorem aggregator_zero_reviews:
  assumes "\<forall>r\<in>set (reviews s). r_product r \<noteq> productId"
    and "findProduct s productId = Some p"
  shows "findProduct (calculateAverageRating s productId) productId =
           Some (p\<lparr>p_rating := 0, p_numReviews := 0\<rparr>)"
proof -
  from assms(1) have "filter (\<lambda>r. r_product r = productId) (reviews s) = []"
    by (simp add: filter_empty_conv)
  then have "aggregate (reviews s) productId = []" by (simp add: aggregate_def)
  then have "calculateAverageRating s productId = productFindByIdAndUpdate s productId 0 0"
    by (simp add: calculateAverageRating_def)
  with assms(2) show ?thesis
    by (simp add: findProduct_def productFindByIdAndUpdate_def find_updateFirst)
qed

text \<open>
  The theorem at \<open>staleStore\<close>, whose only review is of product 2: product 1 loses its
  stale rating 7/2 and count 2.
\<close>

theorem aggregator_zero_reviews_witness:
  "map r_product (reviews staleStore) = [2] \<and>
   findProduct staleStore 1 = Some (mkProduct 1 3 5 (7 / 2) 2) \<and>
   findProduct (calculateAverageRating staleStore 1) 1 = Some (mkProduct 1 3 5 0 0)"
proof -
  have m: "map r_product (reviews staleStore) = [2]"
    by (simp add: staleStore_def mkReview_def)
  have a: "\<forall>r\<in>set (reviews staleStore). r_product r \<noteq> 1"
    by (simp add: staleStore_def mkReview_def)
  have b: "findProduct staleStore 1 = Some (mkProduct 1 3 5 (7 / 2) 2)"
    by (simp add: staleStore_def findProduct_def mkProduct_def)
  from aggregator_zero_reviews[OF a b] m b show ?thesis by (simp add: mkProduct_def)
qed

text \<open>
  Claim C8. \<open>calculateAverageRating\<close> never changes a review (nor a category), changes
  no product other than the one it is called for, changes at most one document, and is a
  silent no-operation when the product does not exist: it returns the store as it was and
  has no error to raise.
\<close>

theorem aggregator_frame:
  "reviews (calculateAverageRating s productId) = reviews s \<and>
   categories (calculateAverageRating s productId) = categories s \<and>
   length (products (calculateAverageRating s productId)) = length (products s) \<and>
   (\<forall>j<length (products s). p_id (products s ! j) \<noteq> productId \<longrightarrow>
        products (calculateAverageRating s productId) ! j = products s ! j) \<and>
   (\<exists>k. \<forall>j. j \<noteq> k \<longrightarrow> products (calculateAverageRating s productId) ! j = products s ! j) \<and>
   (findProduct s productId = None \<longrightarrow> calculateAverageRating s productId = s)"
proof -
  let ?f = "\<lambda>p. p\<lparr>p_rating := meanRating (reviews s) productId,
                    p_numReviews := countReviews (reviews s) productId\<rparr>"
  have eq: "calculateAverageRating s productId =
      s\<lparr>products := updateFirst (\<lambda>p. p_id p = productId) ?f (products s)\<rparr>"
    by (rule calculateAverageRating_eq)
  have 1: "reviews (calculateAverageRating s productId) = reviews s" by (simp add: eq)
  have 2: "categories (calculateAverageRating s productId) = categories s" by (simp add: eq)
  have 3: "length (products (calculateAverageRating s productId)) = length (products s)"
    by (simp add: eq updateFirst_length)
  have 4: "products (calculateAverageRating s productId) ! j = products s ! j"
    if "j < length (products s)" "p_id (products s ! j) \<noteq> productId" for j
    using that by (simp add: eq updateFirst_other)
  have 5: "\<exists>k. \<forall>j. j \<noteq> k \<longrightarrow> products (calculateAverageRating s productId) ! j = products s ! j"
    using updateFirst_single[of "\<lambda>p. p_id p = productId" ?f "products s"] by (simp add: eq)
  have 6: "calculateAverageRating s productId = s" if "findProduct s productId = None"
  proof -
    from that have "\<forall>p\<in>set (products s). \<not> p_id p = productId"
      by (simp add: findProduct_def find_None_iff)
    then have "updateFirst (\<lambda>p. p_id p = productId) ?f (products s) = products s"
      by (rule updateFirst_none)
    then show ?thesis by (simp add: eq)
  qed
  from 1 2 3 4 5 6 show ?thesis by blast
qed

text \<open>
  The theorem at \<open>staleStore\<close>: there is no product 9, and the call for it changes
  nothing; the call for product 2 leaves the reviews and product 1 as they were.
\<close>

theorem aggregator_frame_witness:
  "findProduct staleStore 9 = None \<and> calculateAverageRating staleStore 9 = staleStore \<and>
   reviews (calculateAverageRating staleStore 2) = [mkReview 4 2 7 4] \<and>
   products (calculateAverageRating staleStore 2) = [mkProduct 1 3 5 (7 / 2) 2, mkProduct 2 3 0 4 1]"
proof -
  have a: "findProduct staleStore 9 = None"
    by (simp add: staleStore_def findProduct_def mkProduct_def)
  have b: "products (calculateAverageRating staleStore 2) = [mkProduct 1 3 5 (7 / 2) 2, mkProduct 2 3 0 4 1]"
    by (simp add: staleStore_def mkProduct_def mkReview_def calculateAverageRating_def aggregate_def
          productFindByIdAndUpdate_def Let_def)
  have c: "reviews staleStore = [mkReview 4 2 7 4]" by (simp add: staleStore_def)
  from aggregator_frame[of staleStore 9] aggregator_frame[of staleStore 2] a b c
  show ?thesis by simp
qed

section \<open>Properties of the category guards\<close>

text \<open>
  The guards of \<open>updateCategory\<close> when the request spells the ids as the store renders
  them: a \<open>parentCategory\<close> equal to the id string of the request is refused with
  status 400, one that names no stored category with status 404, and the store is left
  as it was.
\<close>

lemma castObjectId_nonempty: "castObjectId str = Some i \<Longrightarrow> str \<noteq> []"
  by (auto simp: castObjectId_def)

lemma updateCategory_guards_same_spelling:
  assumes "castObjectId paramsId = Some i" and "findCategory s i = Some category"
  shows "(b_parentCategory body = Value paramsId \<longrightarrow>
            updateCategory s paramsId body = (s, Failure 400 ''Category cannot be its own parent'')) \<and>
         (\<forall>parentCategory p. b_parentCategory body = Value parentCategory \<and>
              castObjectId parentCategory = Some p \<and> findCategory s p = None \<longrightarrow>
            updateCategory s paramsId body = (s, Failure 404 ''Parent category not found''))"
proof -
  from assms(1) have ne: "paramsId \<noteq> []" by (rule castObjectId_nonempty)
  have 1: "updateCategory s paramsId body = (s, Failure 400 ''Category cannot be its own parent'')"
    if "b_parentCategory body = Value paramsId"
    using that assms ne by (simp add: updateCategory_def)
  have 2: "updateCategory s paramsId body = (s, Failure 404 ''Parent category not found'')"
    if b: "b_parentCategory body = Value parentCategory"
      and c: "castObjectId parentCategory = Some p" and f: "findCategory s p = None"
    for parentCategory p
  proof -
    from c have "parentCategory \<noteq> []" by (rule castObjectId_nonempty)
    moreover have "parentCategory \<noteq> paramsId" using assms c f by auto
    ultimately show ?thesis using assms b c f by (simp add: updateCategory_def)
  qed
  from 1 2 show ?thesis by blast
qed

lemma updateCategory_same_spelling_example:
  "updateCategory spellingStore ''00000000000000000000000a''
     (spellingBody\<lparr>b_parentCategory := Value ''00000000000000000000000a''\<rparr>) =
   (spellingStore, Failure 400 ''Category cannot be its own parent'')"
  by (simp add: updateCategory_def castObjectId_def isHexDigit_def hexValue_def findCategory_def
        spellingStore_def spellingBody_def mkCategory_def)

text \<open>
  Claim C5 says that an update whose \<open>parentCategory\<close> is the category's own id fails
  with status 400 and leaves the category as it was. The guard, which the code introduces
  as preventing a circular reference, compares the two request strings with \<open>===\<close>.
  At the request \<open>PUT /api/categories/00000000000000000000000a\<close> with the body
  \<open>{parentCategory: '00000000000000000000000A'}\<close> both strings name the id 10 and
  differ as strings: the guard is passed, the parent is found (it is the category
  itself), and the category is stored as its own parent with status 200.
\<close>

theorem updateCategory_self_parent_by_spelling:
  "castObjectId ''00000000000000000000000a'' = Some 10 \<and>
   castObjectId ''00000000000000000000000A'' = Some 10 \<and>
   findCategory spellingStore 10 = Some (mkCategory 10 ''J'' None) \<and>
   updateCategory spellingStore ''00000000000000000000000a'' spellingBody =
     (spellingStore\<lparr>categories := [mkCategory 10 ''J'' (Some 10)]\<rparr>,
      Success 200 (Some (mkCategory 10 ''J'' (Some 10))))"
  by (simp add: updateCategory_def categoryFindByIdAndUpdate_def bodyCasts_def applyBody_def
        castObjectId_def isHexDigit_def hexValue_def findCategory_def
        spellingStore_def spellingBody_def mkCategory_def)

text \<open>
  Claim C6. For a stored category: when N > 0 products reference it, the deletion fails
  with a conflict (status 400) whose message reports N; when no product does and N > 0
  categories name it as their parent, it fails with a conflict that reports that N; when
  both counts are zero the deletion succeeds and removes the category; and it succeeds
  only then.
\<close>

theorem deleteCategory_guards:
  assumes "findCategory s paramsId = Some category"
  shows "let productCount = length (filter (\<lambda>p. p_category p = paramsId) (products s));
             subcategoryCount = length (filter (\<lambda>c. c_parentCategory c = Some paramsId) (categories s))
         in (0 < productCount \<longrightarrow>
               deleteCategory s paramsId =
                 (s, Failure 400 (''Cannot delete category with '' @ showNat productCount @
                                  '' products. Move products first.''))) \<and>
            (productCount = 0 \<and> 0 < subcategoryCount \<longrightarrow>
               deleteCategory s paramsId =
                 (s, Failure 400 (''Cannot delete category with '' @ showNat subcategoryCount @
                                  '' subcategories. Delete subcategories first.''))) \<and>
            (productCount = 0 \<and> subcategoryCount = 0 \<longrightarrow>
               deleteCategory s paramsId =
                 (s\<lparr>categories := removeFirst (\<lambda>c. c_id c = paramsId) (categories s)\<rparr>,
                  Success 200 ())) \<and>
            ((\<exists>s'. deleteCategory s paramsId = (s', Success 200 ())) \<longrightarrow>
               productCount = 0 \<and> subcategoryCount = 0)"
proof -
  from assms have "c_id category = paramsId"
    by (auto simp: findCategory_def dest: find_Some_props)
  with assms show ?thesis
    by (simp add: deleteCategory_def Let_def del: showNat.simps)
qed

text \<open>
  The theorem at \<open>exampleStore\<close>: category 3 holds two products, category 1 has one
  subcategory, category 4 has neither and is deleted.
\<close>

theorem deleteCategory_guards_witness:
  "findCategory exampleStore 3 = Some (mkCategory 3 ''C'' (Some 2)) \<and>
   deleteCategory exampleStore 3 =
     (exampleStore, Failure 400 ''Cannot delete category with 2 products. Move products first.'') \<and>
   findCategory exampleStore 1 = Some (mkCategory 1 ''A'' None) \<and>
   deleteCategory exampleStore 1 =
     (exampleStore,
      Failure 400 ''Cannot delete category with 1 subcategories. Delete subcategories first.'') \<and>
   findCategory exampleStore 4 = Some (mkCategory 4 ''D'' None) \<and>
   deleteCategory exampleStore 4 =
     (exampleStore\<lparr>categories := [mkCategory 1 ''A'' None, mkCategory 2 ''B'' (Some 1), mkCategory 3 ''C'' (Some 2)]\<rparr>,
      Success 200 ())"
proof -
  have a: "findCategory exampleStore 3 = Some (mkCategory 3 ''C'' (Some 2))"
    and b: "findCategory exampleStore 1 = Some (mkCategory 1 ''A'' None)"
    and c: "findCategory exampleStore 4 = Some (mkCategory 4 ''D'' None)"
    by (simp_all add: findCategory_def exampleStore_def exampleForest_def mkCategory_def)
  from deleteCategory_guards[OF a] deleteCategory_guards[OF b] deleteCategory_guards[OF c] a b c
  show ?thesis
    by (simp add: exampleStore_def exampleForest_def mkCategory_def mkProduct_def Let_def)
qed

section \<open>Properties of the stock update\<close>

text \<open>
  Claim C10. For every product and every quantity, \<open>updateStock\<close> with the operation
  \<open>subtract\<close> stores \<open>max(0, stock - quantity)\<close>, so that the stored stock is never
  below zero; an operation other than \<open>add\<close>, \<open>subtract\<close> and \<open>set\<close> is refused with
  status 400 whatever the store holds, with nothing read from it or written to it.
\<close>

theorem updateStock_subtract_floor:
  "(\<forall>product. findProduct s paramsId = Some product \<longrightarrow>
      (\<exists>s'. updateStock s paramsId quantity ''subtract'' =
               (s', Success 200 (product\<lparr>p_stock := max 0 (p_stock product - quantity)\<rparr>)) \<and>
            findProduct s' paramsId =
               Some (product\<lparr>p_stock := max 0 (p_stock product - quantity)\<rparr>) \<and>
            0 \<le> p_stock (product\<lparr>p_stock := max 0 (p_stock product - quantity)\<rparr>))) \<and>
   (operation \<noteq> ''add'' \<and> operation \<noteq> ''subtract'' \<and> operation \<noteq> ''set'' \<longrightarrow>
      updateStock s paramsId quantity operation =
        (s, Failure 400 ''Operation must be add, subtract, or set''))"
proof -
  have 1: "\<exists>s'. updateStock s paramsId quantity ''subtract'' =
               (s', Success 200 (product\<lparr>p_stock := max 0 (p_stock product - quantity)\<rparr>)) \<and>
            findProduct s' paramsId =
               Some (product\<lparr>p_stock := max 0 (p_stock product - quantity)\<rparr>) \<and>
            0 \<le> p_stock (product\<lparr>p_stock := max 0 (p_stock product - quantity)\<rparr>)"
    if f: "findProduct s paramsId = Some product" for product
  proof -
    from f have i: "p_id product = paramsId"
      by (auto simp: findProduct_def dest: find_Some_props)
    let ?p = "product\<lparr>p_stock := max 0 (p_stock product - quantity)\<rparr>"
    have u: "updateStock s paramsId quantity ''subtract'' =
        (s\<lparr>products := updateFirst (\<lambda>p. p_id p = paramsId) (\<lambda>p. ?p) (products s)\<rparr>, Success 200 ?p)"
      using f i by (simp add: updateStock_def saveProduct_def)
    have "find (\<lambda>p. p_id p = paramsId) (updateFirst (\<lambda>p. p_id p = paramsId) (\<lambda>p. ?p) (products s)) =
        map_option (\<lambda>p. ?p) (find (\<lambda>p. p_id p = paramsId) (products s))"
      by (rule find_updateFirst) (simp add: i)
    with f have "findProduct (s\<lparr>products := updateFirst (\<lambda>p. p_id p = paramsId) (\<lambda>p. ?p) (products s)\<rparr>)
        paramsId = Some ?p"
      by (simp add: findProduct_def)
    with u show ?thesis by simp
  qed
  have 2: "updateStock s paramsId quantity operation =
        (s, Failure 400 ''Operation must be add, subtract, or set'')"
    if "operation \<noteq> ''add'' \<and> operation \<noteq> ''subtract'' \<and> operation \<noteq> ''set''"
    using that by (simp add: updateStock_def)
  from 1 2 show ?thesis by blast
qed

text \<open>
  The theorem at \<open>exampleStore\<close>: 5 - 7 is stored as 0, 5 - 2 as 3, and the operation
  \<open>remove\<close> is refused.
\<close>

theorem updateStock_subtract_floor_witness:
  "findProduct exampleStore 1 = Some (mkProduct 1 3 5 0 0) \<and>
   updateStock exampleStore 1 7 ''subtract'' =
     (exampleStore\<lparr>products := [mkProduct 1 3 0 0 0, mkProduct 2 3 0 0 0]\<rparr>, Success 200 (mkProduct 1 3 0 0 0)) \<and>
   updateStock exampleStore 1 2 ''subtract'' =
     (exampleStore\<lparr>products := [mkProduct 1 3 3 0 0, mkProduct 2 3 0 0 0]\<rparr>, Success 200 (mkProduct 1 3 3 0 0)) \<and>
   updateStock exampleStore 1 7 ''remove'' =
     (exampleStore, Failure 400 ''Operation must be add, subtract, or set'')"
proof -
  have a: "findProduct exampleStore 1 = Some (mkProduct 1 3 5 0 0)"
    by (simp add: findProduct_def exampleStore_def mkProduct_def)
  have b: "updateStock exampleStore 1 7 ''subtract'' =
     (exampleStore\<lparr>products := [mkProduct 1 3 0 0 0, mkProduct 2 3 0 0 0]\<rparr>, Success 200 (mkProduct 1 3 0 0 0))"
    by (simp add: updateStock_def saveProduct_def findProduct_def exampleStore_def mkProduct_def)
  have c: "updateStock exampleStore 1 2 ''subtract'' =
     (exampleStore\<lparr>products := [mkProduct 1 3 3 0 0, mkProduct 2 3 0 0 0]\<rparr>, Success 200 (mkProduct 1 3 3 0 0))"
    by (simp add: updateStock_def saveProduct_def findProduct_def exampleStore_def mkProduct_def)
  from updateStock_subtract_floor[of exampleStore 1 7 "''remove''"] a b c
  show ?thesis by simp
qed

section \<open>Properties of the listing query\<close>

subsection \<open>The filter stage\<close>

lemma reqQuery_keeps:
  "set (reqQuery q) =
     {(k, v). (k, v) \<in> set q \<and> k \<notin> {''select'', ''sort'', ''page'', ''limit'', ''search''}}"
  by (auto simp: reqQuery_def removeFields_def)

lemma queryStr_example: \<open>queryStr exampleQuery = ''{"price":{"$lt":"1000"}}''\<close>
  by (simp add: exampleQuery_def queryStr_def reqQuery_def removeFields_def quoteJSON_def escapeChar_def
        isWordChar_def flushWord_def operatorWords_def)

text \<open>
  Claim C4 says that the filter stage drops exactly the reserved parameters, passes every
  other parameter through as a field filter, and translates only the operators \<open>gt\<close>,
  \<open>gte\<close>, \<open>lt\<close>, \<open>lte\<close>, \<open>in\<close> that stand as suffixes of a parameter, leaving
  all filter values unchanged. The code drops the reserved parameters and translates the
  suffix operators (\<open>reqQuery_keeps\<close>, \<open>queryStr_example\<close>), but its replacement runs
  over the whole serialised filter: at the requests \<open>?brand=in\<close> and
  \<open>?name=Made in Italy&page=2\<close> the word \<open>in\<close> inside the value becomes \<open>$in\<close>.
\<close>

theorem queryStr_rewrites_value:
  \<open>queryStr [(''brand'', QStr ''in'')] = ''{"brand":"$in"}'' \<and>
   queryStr [(''name'', QStr ''Made in Italy''), (''page'', QStr ''2'')] = ''{"name":"Made $in Italy"}''\<close>
  by (simp add: queryStr_def reqQuery_def removeFields_def quoteJSON_def escapeChar_def
        isWordChar_def flushWord_def operatorWords_def)

subsection \<open>Pagination\<close>


lemma parseInt10_examples:
  "parseInt10 ''2'' = Some 2" "parseInt10 ''abc'' = None" "parseInt10 ''0'' = Some 0"
  "parseInt10 ''-5'' = Some (- 5)" "parseInt10 ''  12abc'' = Some 12" "parseInt10 ''undefined'' = None"
  by (simp_all add: pageOf_def limitOf_def orDefault_def parseInt10_def param_def
        isWhiteSpace_def isDigit_def digitValue_def)



end
